theory Spec2Isabelle
  imports Complex_Main
begin

section \<open>Results and array access\<close>

text \<open>
  The notebooks work on numpy arrays of float64 and on Python integers. Arrays are
  modelled as lists of reals (rounding is not modelled), Python integers as \<open>int\<close>.
  A raised exception is a value: \<open>Inl\<close> of the exception, as the \<open>except Exception\<close>
  clause of the sweeps receives it. The code modelled here raises IndexError, ValueError and
  ZeroDivisionError; \<open>OtherError\<close> stands for whatever else the integrator may raise.
\<close>

datatype error = IndexError | ValueError | ZeroDivisionError | OtherError

text \<open>\<open>a[k]\<close> on a one-dimensional array: a negative index counts from the end, an
  index outside the array raises IndexError.\<close>

definition getitem :: "'a list \<Rightarrow> int \<Rightarrow> error + 'a" where
  "getitem a k =
     (let n = int (length a); k' = (if k < 0 then k + n else k)
      in if 0 \<le> k' \<and> k' < n then Inr (a ! nat k') else Inl IndexError)"

text \<open>\<open>a[indices]\<close> with a list of integers: the elements at these positions, in order;
  IndexError as soon as one position is outside the array.\<close>

fun take_indices :: "'a list \<Rightarrow> int list \<Rightarrow> error + 'a list" where
  "take_indices a [] = Inr []"
| "take_indices a (k # ks) =
     (case getitem a k of
        Inl e \<Rightarrow> Inl e
      | Inr v \<Rightarrow> (case take_indices a ks of Inl e \<Rightarrow> Inl e | Inr vs \<Rightarrow> Inr (v # vs)))"

section \<open>Trajectory compression\<close>

text \<open>
  \<^verbatim>\<open>dist = np.sqrt((x[j] - x[i])**2 + (y[j] - y[i])**2)\<close> followed by the test
  \<^verbatim>\<open>dist > delta\<close>.
\<close>

definition distance :: "real list \<Rightarrow> real list \<Rightarrow> int \<Rightarrow> int \<Rightarrow> error + real" where
  "distance x y i j =
     (case getitem x j of Inl e \<Rightarrow> Inl e | Inr xj \<Rightarrow>
     (case getitem x i of Inl e \<Rightarrow> Inl e | Inr xi \<Rightarrow>
     (case getitem y j of Inl e \<Rightarrow> Inl e | Inr yj \<Rightarrow>
     (case getitem y i of Inl e \<Rightarrow> Inl e | Inr yi \<Rightarrow>
        Inr (sqrt ((xj - xi)\<^sup>2 + (yj - yi)\<^sup>2))))))"

definition exceeds :: "real list \<Rightarrow> real list \<Rightarrow> real \<Rightarrow> int \<Rightarrow> int \<Rightarrow> error + bool" where
  "exceeds x y delta i j =
     (case distance x y i j of Inl e \<Rightarrow> Inl e | Inr d \<Rightarrow> Inr (d > delta))"

text \<open>
  The two nested \<^verbatim>\<open>while\<close> loops of \<^verbatim>\<open>compress_trajectory\<close>. The loops only look at
  the outcome of the test \<^verbatim>\<open>dist > delta\<close> for the pair \<open>(i, j)\<close>, so they take the test
  as the argument \<open>far\<close>; \<open>n\<close> is \<^verbatim>\<open>len(t)\<close>.

  Inner loop: from \<open>j\<close>, walk upward until the test succeeds (\<^verbatim>\<open>break\<close>) or \<open>j\<close> reaches
  \<open>n\<close>; the value is the \<open>j\<close> at which the loop is left.
\<close>

function scan :: "(int \<Rightarrow> int \<Rightarrow> error + bool) \<Rightarrow> int \<Rightarrow> int \<Rightarrow> int \<Rightarrow> error + int" where
  "scan far n i j =
     (if j < n then
        (case far i j of
           Inl e \<Rightarrow> Inl e
         | Inr b \<Rightarrow> if b then Inr j else scan far n i (j + 1))
      else Inr j)"
  by pat_completeness auto
termination
  by (relation "measure (\<lambda>(far, n, i, j). nat (n - j))") auto

declare scan.simps [simp del]

lemma scan_ge: "scan far n i j = Inr j' \<Longrightarrow> j \<le> j'"
proof (induction far n i j rule: scan.induct)
  case (1 far n i j)
  from "1.prems" show ?case
    by (subst (asm) scan.simps) (auto split: if_splits sum.splits dest: "1.IH")
qed

text \<open>
  Outer loop: \<open>i\<close> is the last retained index, \<open>indices\<close> the list built so far.
  The loop is left when \<open>i\<close> is the last index or when the inner loop ran off the end
  (\<^verbatim>\<open>if j >= len(t): break\<close>).
\<close>

function outer :: "(int \<Rightarrow> int \<Rightarrow> error + bool) \<Rightarrow> int \<Rightarrow> int \<Rightarrow> int list \<Rightarrow> error + int list" where
  "outer far n i indices =
     (if i < n - 1 then
        (case scan far n i (i + 1) of
           Inl e \<Rightarrow> Inl e
         | Inr j \<Rightarrow> if j \<ge> n then Inr indices else outer far n j (indices @ [j]))
      else Inr indices)"
  by pat_completeness auto
termination
  by (relation "measure (\<lambda>(far, n, i, indices). nat (n - i))") (auto dest: scan_ge)

declare outer.simps [simp del]

text \<open>
  The whole function: \<^verbatim>\<open>indices = [0]\<close>, \<^verbatim>\<open>i = 0\<close>, the loops, then the last index is
  appended when it is not already the last element. \<^verbatim>\<open>indices[-1]\<close> is \<open>last\<close>: the list
  starts as \<open>[0]\<close> and only grows, so it is never empty.
\<close>

definition compress_loops :: "(int \<Rightarrow> int \<Rightarrow> error + bool) \<Rightarrow> int \<Rightarrow> error + int list" where
  "compress_loops far n =
     (case outer far n 0 [0] of
        Inl e \<Rightarrow> Inl e
      | Inr indices \<Rightarrow>
          Inr (if last indices \<noteq> n - 1 then indices @ [n - 1] else indices))"

definition compress_trajectory ::
  "real list \<Rightarrow> real list \<Rightarrow> real list \<Rightarrow> real \<Rightarrow> error + int list" where
  "compress_trajectory t x y delta = compress_loops (exceeds x y delta) (int (length t))"

section \<open>The loops with no termination assumed\<close>

text \<open>
  The same two loops and the same function as partial functions: the value is \<open>None\<close> when
  a loop never ends. Nothing about their termination is built into these definitions.
\<close>

partial_function (option) scan_while ::
  "(int \<Rightarrow> int \<Rightarrow> error + bool) \<Rightarrow> int \<Rightarrow> int \<Rightarrow> int \<Rightarrow> (error + int) option" where
  "scan_while far n i j =
     (if j < n then
        (case far i j of
           Inl e \<Rightarrow> Some (Inl e)
         | Inr b \<Rightarrow> if b then Some (Inr j) else scan_while far n i (j + 1))
      else Some (Inr j))"

partial_function (option) outer_while ::
  "(int \<Rightarrow> int \<Rightarrow> error + bool) \<Rightarrow> int \<Rightarrow> int \<Rightarrow> int list \<Rightarrow> (error + int list) option" where
  "outer_while far n i indices =
     (if i < n - 1 then
        (case scan_while far n i (i + 1) of
           None \<Rightarrow> None
         | Some (Inl e) \<Rightarrow> Some (Inl e)
         | Some (Inr j) \<Rightarrow> if j \<ge> n then Some (Inr indices) else outer_while far n j (indices @ [j]))
      else Some (Inr indices))"

definition compress_while :: "(int \<Rightarrow> int \<Rightarrow> error + bool) \<Rightarrow> int \<Rightarrow> (error + int list) option" where
  "compress_while far n =
     (case outer_while far n 0 [0] of
        None \<Rightarrow> None
      | Some (Inl e) \<Rightarrow> Some (Inl e)
      | Some (Inr indices) \<Rightarrow>
          Some (Inr (if last indices \<noteq> n - 1 then indices @ [n - 1] else indices)))"

definition compress_trajectory_while ::
  "real list \<Rightarrow> real list \<Rightarrow> real list \<Rightarrow> real \<Rightarrow> (error + int list) option" where
  "compress_trajectory_while t x y delta = compress_while (exceeds x y delta) (int (length t))"

section \<open>The right-hand side (98_DOP853, Cell 2)\<close>

text \<open>
  Cell 1 fixes \<^verbatim>\<open>b = 1.0\<close> and \<^verbatim>\<open>K = 1.0\<close>. \<^verbatim>\<open>np.clip(a, lo, hi)\<close> is
  \<^verbatim>\<open>minimum(maximum(a, lo), hi)\<close>.
\<close>

definition model_b :: real where
  "model_b = 1"

definition model_K :: real where
  "model_K = 1"

definition clip :: "real \<Rightarrow> real \<Rightarrow> real \<Rightarrow> real" where
  "clip a lo hi = min (max a lo) hi"

text \<open>
  \<^verbatim>\<open>np.exp(np.clip(np.log(v) * inv_alpha, -700, 700))\<close>, the expression behind
  \<^verbatim>\<open>x_alpha\<close>, \<^verbatim>\<open>y_alpha\<close> and \<^verbatim>\<open>b_alpha\<close>.
\<close>

definition clamped_power :: "real \<Rightarrow> real \<Rightarrow> real" where
  "clamped_power v inv_alpha = exp (clip (ln v * inv_alpha) (- 700) 700)"

text \<open>
  \<^verbatim>\<open>get_rhs(alpha, gamma1, gamma2)\<close> returns the function \<^verbatim>\<open>rhs(t, xy)\<close>. \<^verbatim>\<open>alpha\<close> is a
  Python float, so \<^verbatim>\<open>1.0 / alpha\<close> raises ZeroDivisionError at zero. The logarithm is taken
  of clipped, hence positive, values, and the two divisions are numpy divisions, which do
  not raise.
\<close>

definition get_rhs :: "real \<Rightarrow> real \<Rightarrow> real \<Rightarrow> real \<Rightarrow> real \<times> real \<Rightarrow> error + real \<times> real" where
  "get_rhs alpha gamma1 gamma2 t xy =
     (let x = clip (fst xy) (1 / 10 ^ 20) (10 ^ 20);
          y = clip (snd xy) (1 / 10 ^ 20) (10 ^ 20)
      in if alpha = 0 then Inl ZeroDivisionError
         else
           (let inv_alpha = 1 / alpha;
                x_alpha = clamped_power x inv_alpha;
                y_alpha = clamped_power y inv_alpha;
                b_alpha = clamped_power model_b inv_alpha;
                dxdt = model_K * x_alpha / (b_alpha + x_alpha) - gamma1 * x;
                dydt = model_K * y_alpha / (b_alpha + y_alpha) - gamma2 * y
            in Inr (dxdt, dydt)))"

text \<open>The largest finite float64: a result of larger magnitude overflows to infinity.\<close>

definition double_max :: real where
  "double_max = 2 ^ 1024 - 2 ^ 971"

text \<open>
  The model computes over the reals, where nothing overflows; \<open>representable v\<close> says that
  the magnitude of \<open>v\<close> is within the range of the finite float64 values, so that the float64
  operation with the exact result \<open>v\<close> returns a finite number and not an infinity.
\<close>

definition representable :: "real \<Rightarrow> bool" where
  "representable v \<longleftrightarrow> \<bar>v\<bar> \<le> double_max"

section \<open>The sweeps\<close>

text \<open>
  \<^verbatim>\<open>solve_ivp\<close> is the external integrator. A call either raises or returns an object with
  the fields \<^verbatim>\<open>success\<close>, \<^verbatim>\<open>t\<close> and \<^verbatim>\<open>y\<close> (two rows). The sweeps fix the time span and
  the sample times, so a call is determined by the method, the three parameters bound into
  the right-hand side and the initial state: the integrator is the argument \<open>solve\<close>,
  applied to \<open>method alpha gamma1 gamma2 x0 y0\<close>.
\<close>

type_synonym method_name = string

record sol =
  success :: bool
  sol_t :: "real list"
  sol_y0 :: "real list"
  sol_y1 :: "real list"

type_synonym solver = "method_name \<Rightarrow> real \<Rightarrow> real \<Rightarrow> real \<Rightarrow> real \<Rightarrow> real \<Rightarrow> error + sol"

text \<open>What a sweep prints: the line of the \<^verbatim>\<open>except\<close> clause (method, alpha, gamma1, gamma2,
  x0 and the exception) and the periodic progress line (only its counter is kept).\<close>

datatype log_line =
  Error_line method_name real real real real error
| Progress_line int

record console =
  printed :: "log_line list"

text \<open>A Solution Record: the dictionary appended to \<^verbatim>\<open>records\<close>.\<close>

record solution_record =
  rec_x0 :: real
  rec_y0 :: real
  rec_gamma1 :: real
  rec_gamma2 :: real
  rec_alpha :: real
  rec_t :: "real list"
  solutions :: "method_name \<rightharpoonup> real list \<times> real list"

record collection = console +
  records :: "solution_record list"

record sweep_state = collection +
  solution_count :: int
  skipped_total :: int
  kept_total :: int

definition log_error ::
  "method_name \<Rightarrow> real \<Rightarrow> real \<Rightarrow> real \<Rightarrow> real \<Rightarrow> error \<Rightarrow> ('a console_scheme) \<Rightarrow> ('a console_scheme)" where
  "log_error method alpha gamma1 gamma2 x0 e st =
     st\<lparr>printed := printed st @ [Error_line method alpha gamma1 gamma2 x0 e]\<rparr>"

subsection \<open>Compress and append (98_DOP853, Cell 3)\<close>

text \<open>
  The body of the innermost loop. Everything from the call of the integrator to the
  progress line is inside \<^verbatim>\<open>try\<close>; every exception ends in the \<^verbatim>\<open>except\<close> clause, which
  prints one line. The counters and \<^verbatim>\<open>records\<close> are written only after the last statement
  that can raise.
\<close>

definition new_record ::
  "real \<Rightarrow> real \<Rightarrow> real \<Rightarrow> real \<Rightarrow> real \<Rightarrow> real list \<Rightarrow> method_name \<Rightarrow> real list \<times> real list \<Rightarrow> solution_record" where
  "new_record x0 y0 gamma1 gamma2 alpha t_filt method xy =
     \<lparr>rec_x0 = x0, rec_y0 = y0, rec_gamma1 = gamma1, rec_gamma2 = gamma2, rec_alpha = alpha,
      rec_t = t_filt, solutions = [method \<mapsto> xy]\<rparr>"

text \<open>The part of the body after a successful integration, up to the re-indexing: the
  index list and the three filtered arrays, or the exception raised on the way.\<close>

definition compress_solution ::
  "sol \<Rightarrow> real \<Rightarrow> error + int list \<times> real list \<times> real list \<times> real list" where
  "compress_solution s delta =
     (case compress_trajectory (sol_t s) (sol_y0 s) (sol_y1 s) delta of Inl e \<Rightarrow> Inl e | Inr indices \<Rightarrow>
     (case take_indices (sol_y0 s) indices of Inl e \<Rightarrow> Inl e | Inr x_filt \<Rightarrow>
     (case take_indices (sol_y1 s) indices of Inl e \<Rightarrow> Inl e | Inr y_filt \<Rightarrow>
     (case take_indices (sol_t s) indices of Inl e \<Rightarrow> Inl e | Inr t_filt \<Rightarrow>
        Inr (indices, x_filt, y_filt, t_filt)))))"

text \<open>\<^verbatim>\<open>solution_count += 1\<close> and the progress line, printed when the counter is a
  multiple of \<open>period\<close>.\<close>

definition count_solution :: "int \<Rightarrow> sweep_state \<Rightarrow> sweep_state" where
  "count_solution period st =
     (let st = st\<lparr>solution_count := solution_count st + 1\<rparr>
      in if solution_count st mod period = 0
         then st\<lparr>printed := printed st @ [Progress_line (solution_count st)]\<rparr> else st)"

definition body_98 ::
  "solver \<Rightarrow> method_name \<Rightarrow> real \<Rightarrow> real \<Rightarrow> real \<Rightarrow> real \<Rightarrow> real \<Rightarrow> real \<Rightarrow> sweep_state \<Rightarrow> sweep_state" where
  "body_98 solve method delta x0 y0 gamma1 gamma2 alpha st =
     (case solve method alpha gamma1 gamma2 x0 y0 of
        Inl e \<Rightarrow> log_error method alpha gamma1 gamma2 x0 e st
      | Inr s \<Rightarrow>
          if success s then
            (case compress_solution s delta of
               Inl e \<Rightarrow> log_error method alpha gamma1 gamma2 x0 e st
             | Inr (indices, x_filt, y_filt, t_filt) \<Rightarrow>
                 count_solution 1000
                   (st\<lparr>kept_total := kept_total st + int (length indices),
                       skipped_total := skipped_total st + (int (length (sol_t s)) - int (length indices)),
                       records := records st @
                         [new_record x0 y0 gamma1 gamma2 alpha t_filt method (x_filt, y_filt)]\<rparr>))
          else st)"

definition sweep_98 ::
  "solver \<Rightarrow> (real \<times> real) list \<Rightarrow> real list \<Rightarrow> real list \<Rightarrow> real list \<Rightarrow> method_name \<Rightarrow> real \<Rightarrow>
     sweep_state \<Rightarrow> sweep_state" where
  "sweep_98 solve initial_conditions gamma_1_list gamma_2_list alpha_list method delta =
     fold (\<lambda>(x0, y0).
       fold (\<lambda>gamma1.
         fold (\<lambda>gamma2.
           fold (\<lambda>alpha. body_98 solve method delta x0 y0 gamma1 gamma2 alpha)
             alpha_list)
           gamma_2_list)
         gamma_1_list)
       initial_conditions"

definition start :: sweep_state where
  "start = \<lparr>printed = [], records = [], solution_count = 0, skipped_total = 0, kept_total = 0\<rparr>"

subsection \<open>Compress and merge by parameter set (95, second notebook, Cell 3)\<close>

type_synonym key = "real \<times> real \<times> real \<times> real \<times> real"

definition key_of :: "solution_record \<Rightarrow> key" where
  "key_of r = (rec_x0 r, rec_y0 r, rec_gamma1 r, rec_gamma2 r, rec_alpha r)"

text \<open>
  \<^verbatim>\<open>for rec in records: if (...) == key: rec['solutions'][method] = ...; break\<close> with its
  \<^verbatim>\<open>else\<close> clause: the first record with the key gets the entry of the method, added or
  overwritten; when the loop ends without \<^verbatim>\<open>break\<close> a new record is appended.
\<close>

fun merge_record ::
  "solution_record list \<Rightarrow> key \<Rightarrow> method_name \<Rightarrow> real list \<Rightarrow> real list \<times> real list \<Rightarrow> solution_record list" where
  "merge_record [] (x0, y0, gamma1, gamma2, alpha) method t_filt xy =
     [new_record x0 y0 gamma1 gamma2 alpha t_filt method xy]"
| "merge_record (r # rs) (x0, y0, gamma1, gamma2, alpha) method t_filt xy =
     (if key_of r = (x0, y0, gamma1, gamma2, alpha)
      then r\<lparr>solutions := (solutions r)(method \<mapsto> xy)\<rparr> # rs
      else r # merge_record rs (x0, y0, gamma1, gamma2, alpha) method t_filt xy)"

definition body_merge ::
  "solver \<Rightarrow> real \<Rightarrow> real \<Rightarrow> real \<Rightarrow> real \<Rightarrow> real \<Rightarrow> real \<Rightarrow> method_name \<Rightarrow> sweep_state \<Rightarrow> sweep_state" where
  "body_merge solve delta x0 y0 gamma1 gamma2 alpha method st =
     (case solve method alpha gamma1 gamma2 x0 y0 of
        Inl e \<Rightarrow> log_error method alpha gamma1 gamma2 x0 e st
      | Inr s \<Rightarrow>
          if success s then
            (case compress_solution s delta of
               Inl e \<Rightarrow> log_error method alpha gamma1 gamma2 x0 e st
             | Inr (indices, x_filt, y_filt, t_filt) \<Rightarrow>
                 count_solution 1049
                   (st\<lparr>kept_total := kept_total st + int (length indices),
                       skipped_total := skipped_total st + (int (length (sol_t s)) - int (length indices)),
                       records := merge_record (records st) (x0, y0, gamma1, gamma2, alpha)
                                    method t_filt (x_filt, y_filt)\<rparr>))
          else st)"

definition sweep_merge ::
  "solver \<Rightarrow> (real \<times> real) list \<Rightarrow> real list \<Rightarrow> real list \<Rightarrow> real list \<Rightarrow> method_name list \<Rightarrow> real \<Rightarrow>
     sweep_state \<Rightarrow> sweep_state" where
  "sweep_merge solve initial_conditions gamma_1_list gamma_2_list alpha_list all_methods delta =
     fold (\<lambda>(x0, y0).
       fold (\<lambda>gamma1.
         fold (\<lambda>gamma2.
           fold (\<lambda>alpha.
             fold (\<lambda>method. body_merge solve delta x0 y0 gamma1 gamma2 alpha method)
               all_methods)
             alpha_list)
           gamma_2_list)
         gamma_1_list)
       initial_conditions"

subsection \<open>Merge without compression (the unnamed notebook, Cell 3)\<close>

text \<open>
  Here the key is first looked up in the list of the keys of all records; a new record is
  appended when it is absent, otherwise the first record with the key is updated.
\<close>

fun add_method ::
  "solution_record list \<Rightarrow> key \<Rightarrow> method_name \<Rightarrow> real list \<times> real list \<Rightarrow> solution_record list" where
  "add_method [] k method xy = []"
| "add_method (r # rs) k method xy =
     (if key_of r = k then r\<lparr>solutions := (solutions r)(method \<mapsto> xy)\<rparr> # rs
      else r # add_method rs k method xy)"

definition merge_seen ::
  "solution_record list \<Rightarrow> key \<Rightarrow> method_name \<Rightarrow> real list \<Rightarrow> real list \<times> real list \<Rightarrow> solution_record list" where
  "merge_seen rs k method t xy =
     (case k of (x0, y0, gamma1, gamma2, alpha) \<Rightarrow>
        if k \<notin> set (map key_of rs)
        then rs @ [new_record x0 y0 gamma1 gamma2 alpha t method xy]
        else add_method rs k method xy)"

definition body_seen ::
  "solver \<Rightarrow> real \<Rightarrow> real \<Rightarrow> real \<Rightarrow> real \<Rightarrow> method_name \<Rightarrow> real \<Rightarrow> 'a collection_scheme \<Rightarrow> 'a collection_scheme" where
  "body_seen solve x0 y0 gamma1 gamma2 method alpha st =
     (case solve method alpha gamma1 gamma2 x0 y0 of
        Inl e \<Rightarrow> log_error method alpha gamma1 gamma2 x0 e st
      | Inr s \<Rightarrow>
          if success s then
            st\<lparr>records := merge_seen (records st) (x0, y0, gamma1, gamma2, alpha) method
                              (sol_t s) (sol_y0 s, sol_y1 s)\<rparr>
          else st)"

definition sweep_seen ::
  "solver \<Rightarrow> (real \<times> real) list \<Rightarrow> real list \<Rightarrow> real list \<Rightarrow> method_name list \<Rightarrow> real list \<Rightarrow>
     'a collection_scheme \<Rightarrow> 'a collection_scheme" where
  "sweep_seen solve initial_conditions gamma_1_list gamma_2_list all_methods alpha_list =
     fold (\<lambda>(x0, y0).
       fold (\<lambda>gamma1.
         fold (\<lambda>gamma2.
           fold (\<lambda>method.
             fold (\<lambda>alpha. body_seen solve x0 y0 gamma1 gamma2 method alpha)
               alpha_list)
             all_methods)
           gamma_2_list)
         gamma_1_list)
       initial_conditions"

subsection \<open>Uniqueness filter (95, first notebook, Cell 3)\<close>

text \<open>\<^verbatim>\<open>a - b\<close> on one-dimensional arrays: elementwise on equal lengths, an array of one
  element is broadcast, any other pair of lengths raises ValueError.\<close>

definition np_sub :: "real list \<Rightarrow> real list \<Rightarrow> error + real list" where
  "np_sub a b =
     (if length a = length b then Inr (map2 (-) a b)
      else if length a = 1 then Inr (map (\<lambda>v. hd a - v) b)
      else if length b = 1 then Inr (map (\<lambda>v. v - hd b) a)
      else Inl ValueError)"

text \<open>\<^verbatim>\<open>np.linalg.norm\<close> of a one-dimensional array: the Euclidean norm.\<close>

definition norm2 :: "real list \<Rightarrow> real" where
  "norm2 v = sqrt (\<Sum>a\<leftarrow>v. a\<^sup>2)"

record signature =
  sig_x :: "real list"
  sig_y :: "real list"

text \<open>The condition of the \<^verbatim>\<open>if\<close> in the loop over \<^verbatim>\<open>saved_signatures\<close>; \<^verbatim>\<open>and\<close> does
  not evaluate its right operand when the left one is false.\<close>

definition similar :: "real list \<Rightarrow> real list \<Rightarrow> signature \<Rightarrow> real \<Rightarrow> error + bool" where
  "similar x y sig epsilon =
     (case np_sub x (sig_x sig) of Inl e \<Rightarrow> Inl e | Inr dx \<Rightarrow>
        if norm2 dx < epsilon
        then (case np_sub y (sig_y sig) of Inl e \<Rightarrow> Inl e | Inr dy \<Rightarrow> Inr (norm2 dy < epsilon))
        else Inr False)"

text \<open>The loop: the final value of \<^verbatim>\<open>unique\<close>.\<close>

fun unique_among :: "real list \<Rightarrow> real list \<Rightarrow> signature list \<Rightarrow> real \<Rightarrow> error + bool" where
  "unique_among x y [] epsilon = Inr True"
| "unique_among x y (sig # sigs) epsilon =
     (case similar x y sig epsilon of
        Inl e \<Rightarrow> Inl e
      | Inr b \<Rightarrow> if b then Inr False else unique_among x y sigs epsilon)"

record entry =
  entry_alpha :: real
  entry_gamma1 :: real
  entry_gamma2 :: real
  entry_method :: method_name
  entry_x0 :: real
  entry_y0 :: real
  entry_t :: "real list"
  entry_x :: "real list"
  entry_y :: "real list"

record unique_state = console +
  entries :: "entry list"
  saved_signatures :: "signature list"
  total_attempts :: int
  skipped_due_to_similarity :: int

definition body_unique ::
  "solver \<Rightarrow> real \<Rightarrow> real \<Rightarrow> real \<Rightarrow> real \<Rightarrow> real \<Rightarrow> method_name \<Rightarrow> real \<Rightarrow> unique_state \<Rightarrow> unique_state" where
  "body_unique solve epsilon x0 y0 gamma1 gamma2 method alpha st0 =
     (let st = st0\<lparr>total_attempts := total_attempts st0 + 1\<rparr> in
      case solve method alpha gamma1 gamma2 x0 y0 of
        Inl e \<Rightarrow> log_error method alpha gamma1 gamma2 x0 e st
      | Inr s \<Rightarrow>
          if \<not> success s then st
          else
            (case unique_among (sol_y0 s) (sol_y1 s) (saved_signatures st) epsilon of
               Inl e \<Rightarrow> log_error method alpha gamma1 gamma2 x0 e st
             | Inr unique \<Rightarrow>
                 if \<not> unique
                 then st\<lparr>skipped_due_to_similarity := skipped_due_to_similarity st + 1\<rparr>
                 else st\<lparr>saved_signatures := saved_signatures st @
                            [\<lparr>sig_x = sol_y0 s, sig_y = sol_y1 s\<rparr>],
                          entries := entries st @
                            [\<lparr>entry_alpha = alpha, entry_gamma1 = gamma1, entry_gamma2 = gamma2,
                              entry_method = method, entry_x0 = x0, entry_y0 = y0,
                              entry_t = sol_t s, entry_x = sol_y0 s, entry_y = sol_y1 s\<rparr>]\<rparr>))"

definition sweep_unique ::
  "solver \<Rightarrow> (real \<times> real) list \<Rightarrow> real list \<Rightarrow> real list \<Rightarrow> method_name list \<Rightarrow> real list \<Rightarrow> real \<Rightarrow>
     unique_state \<Rightarrow> unique_state" where
  "sweep_unique solve initial_conditions gamma_1_list gamma_2_list all_methods alpha_list epsilon =
     fold (\<lambda>(x0, y0).
       fold (\<lambda>gamma1.
         fold (\<lambda>gamma2.
           fold (\<lambda>method.
             fold (\<lambda>alpha. body_unique solve epsilon x0 y0 gamma1 gamma2 method alpha)
               alpha_list)
             all_methods)
           gamma_2_list)
         gamma_1_list)
       initial_conditions"

definition start_unique :: unique_state where
  "start_unique = \<lparr>printed = [], entries = [], saved_signatures = [], total_attempts = 0,
     skipped_due_to_similarity = 0\<rparr>"

section \<open>The loops on a test that answers\<close>

text \<open>
  \<open>answers far n f\<close>: on every pair of positions inside the array the test raises nothing
  and returns \<open>f i j\<close>.
\<close>

definition answers :: "(int \<Rightarrow> int \<Rightarrow> error + bool) \<Rightarrow> int \<Rightarrow> (int \<Rightarrow> int \<Rightarrow> bool) \<Rightarrow> bool" where
  "answers far n f \<longleftrightarrow> (\<forall>i j. 0 \<le> i \<and> i < n \<and> 0 \<le> j \<and> j < n \<longrightarrow> far i j = Inr (f i j))"

lemma answersD: "answers far n f \<Longrightarrow> 0 \<le> i \<Longrightarrow> i < n \<Longrightarrow> 0 \<le> j \<Longrightarrow> j < n \<Longrightarrow> far i j = Inr (f i j)"
  by (simp add: answers_def)

lemma scan_spec:
  assumes "answers far n f" "0 \<le> i" "i < n" "0 \<le> j"
  shows "\<exists>j'. scan far n i j = Inr j' \<and> j \<le> j' \<and> (j' < n \<longrightarrow> f i j') \<and>
           (\<forall>k. j \<le> k \<and> k < j' \<longrightarrow> \<not> f i k) \<and> (j \<le> n \<longrightarrow> j' \<le> n)"
  using assms
proof (induction far n i j rule: scan.induct)
  case (1 far n i j)
  show ?case
  proof (cases "j < n")
    case False
    then show ?thesis by (subst scan.simps) auto
  next
    case True
    then have far: "far i j = Inr (f i j)" using "1.prems" by (simp add: answersD)
    show ?thesis
    proof (cases "f i j")
      case True
      with far \<open>j < n\<close> show ?thesis by (subst scan.simps) auto
    next
      case False
      from "1.IH"[OF \<open>j < n\<close> far False] "1.prems"
      obtain j' where j': "scan far n i (j + 1) = Inr j'" "j + 1 \<le> j'" "j' < n \<longrightarrow> f i j'"
        "\<forall>k. j + 1 \<le> k \<and> k < j' \<longrightarrow> \<not> f i k" "j + 1 \<le> n \<longrightarrow> j' \<le> n"
        by auto
      have "\<forall>k. j \<le> k \<and> k < j' \<longrightarrow> \<not> f i k"
      proof (intro allI impI)
        fix k assume "j \<le> k \<and> k < j'"
        then have "k = j \<or> (j + 1 \<le> k \<and> k < j')" by auto
        then show "\<not> f i k" using False j'(4) by auto
      qed
      with far False \<open>j < n\<close> j' show ?thesis by (subst scan.simps) auto
    qed
  qed
qed

text \<open>
  \<open>chain f n i r\<close>: \<open>r\<close> is the list of indices the outer loop appends when it starts at the
  retained index \<open>i\<close>: each one is the first later position where the test holds, and from
  the last one on the test holds nowhere.
\<close>

fun chain :: "(int \<Rightarrow> int \<Rightarrow> bool) \<Rightarrow> int \<Rightarrow> int \<Rightarrow> int list \<Rightarrow> bool" where
  "chain f n i [] = (\<forall>k. i < k \<and> k < n \<longrightarrow> \<not> f i k)"
| "chain f n i (j # js) =
     (i < j \<and> j < n \<and> f i j \<and> (\<forall>k. i < k \<and> k < j \<longrightarrow> \<not> f i k) \<and> chain f n j js)"

lemma outer_spec:
  assumes "answers far n f" "0 \<le> i" "i < n"
  shows "\<exists>r. outer far n i indices = Inr (indices @ r) \<and> chain f n i r"
  using assms
proof (induction far n i indices rule: outer.induct)
  case (1 far n i indices)
  show ?case
  proof (cases "i < n - 1")
    case False
    with "1.prems" have "chain f n i []" by auto
    with False show ?thesis by (subst outer.simps) simp
  next
    case True
    from scan_spec[OF "1.prems"(1,2,3), of "i + 1"] "1.prems"
    obtain j where j: "scan far n i (i + 1) = Inr j" "i + 1 \<le> j" "j < n \<longrightarrow> f i j"
      "\<forall>k. i + 1 \<le> k \<and> k < j \<longrightarrow> \<not> f i k" "j \<le> n"
      by auto
    show ?thesis
    proof (cases "j \<ge> n")
      case True
      with j have "chain f n i []" by auto
      with True \<open>i < n - 1\<close> j(1) show ?thesis by (subst outer.simps) simp
    next
      case False
      from "1.IH"[OF \<open>i < n - 1\<close> j(1) False "1.prems"(1)] j False "1.prems"
      obtain r where r: "outer far n j (indices @ [j]) = Inr ((indices @ [j]) @ r)" "chain f n j r"
        by auto
      have "chain f n i (j # r)" using j False r(2) by auto
      with r(1) False \<open>i < n - 1\<close> j(1) show ?thesis
        by (subst outer.simps) (auto intro: exI[of _ "j # r"])
    qed
  qed
qed

lemma chain_bound: "chain f n i r \<Longrightarrow> k \<in> set r \<Longrightarrow> i < k \<and> k < n"
proof (induction r arbitrary: i)
  case Nil
  then show ?case by simp
next
  case (Cons j js)
  show ?case
  proof (cases "k = j")
    case True
    with Cons.prems show ?thesis by simp
  next
    case False
    with Cons.prems have "j < k \<and> k < n" by (auto dest: Cons.IH)
    with Cons.prems show ?thesis by simp
  qed
qed

lemma chain_sorted: "chain f n i r \<Longrightarrow> sorted_wrt (<) (i # r)"
proof (induction r arbitrary: i)
  case Nil
  then show ?case by simp
next
  case (Cons j js)
  from Cons.prems have "chain f n j js" by simp
  then have "sorted_wrt (<) (j # js)" by (rule Cons.IH)
  moreover have "\<forall>k\<in>set (j # js). i < k"
    using Cons.prems chain_bound[of f n j js] by fastforce
  ultimately show ?case by simp
qed

lemma chain_last: "chain f n i r \<Longrightarrow> i < n \<Longrightarrow> last (i # r) < n"
  by (induction r arbitrary: i) auto

section \<open>The distance test on a trajectory\<close>

text \<open>The Euclidean distance in the \<open>(x, y)\<close> plane between the points at two positions.\<close>

definition euclid :: "real list \<Rightarrow> real list \<Rightarrow> nat \<Rightarrow> nat \<Rightarrow> real" where
  "euclid x y i j = sqrt ((x ! j - x ! i)\<^sup>2 + (y ! j - y ! i)\<^sup>2)"

lemma getitem_in_range: "0 \<le> k \<Longrightarrow> k < int (length a) \<Longrightarrow> getitem a k = Inr (a ! nat k)"
  by (simp add: getitem_def)

lemma exceeds_answers:
  assumes "length x = length t" "length y = length t"
  shows "answers (exceeds x y delta) (int (length t)) (\<lambda>i j. euclid x y (nat i) (nat j) > delta)"
  using assms by (simp add: answers_def exceeds_def distance_def getitem_in_range euclid_def)

lemma outer_empty: "n \<le> 1 \<Longrightarrow> outer far n 0 [0] = Inr [0]"
  by (subst outer.simps) simp

lemma compress_loops_spec:
  assumes "answers far n f" "0 < n"
  shows "\<exists>r. outer far n 0 [0] = Inr (0 # r) \<and> chain f n 0 r \<and>
           compress_loops far n = Inr (if last (0 # r) \<noteq> n - 1 then (0 # r) @ [n - 1] else 0 # r)"
proof -
  from outer_spec[OF assms(1) _ assms(2), of "[0]"]
  obtain r where "outer far n 0 [0] = Inr ([0] @ r)" "chain f n 0 r" by auto
  then show ?thesis by (auto simp: compress_loops_def)
qed

lemma sorted_wrt_snoc_less:
  "sorted_wrt (<) (xs :: int list) \<Longrightarrow> xs \<noteq> [] \<Longrightarrow> last xs < v \<Longrightarrow> sorted_wrt (<) (xs @ [v])"
proof -
  assume s: "sorted_wrt (<) xs" and ne: "xs \<noteq> []" and l: "last xs < v"
  have "\<forall>k\<in>set xs. k \<le> last xs"
  proof
    fix k assume "k \<in> set xs"
    then obtain p where p: "p < length xs" "xs ! p = k" by (auto simp: in_set_conv_nth)
    show "k \<le> last xs"
    proof (cases "p = length xs - 1")
      case True
      with p ne show ?thesis by (simp add: last_conv_nth)
    next
      case False
      with p have "p < length xs - 1" by simp
      with p ne have "length xs - 1 < length xs" by simp
      from sorted_wrt_nth_less[OF s \<open>p < length xs - 1\<close> this]
      have "xs ! p < xs ! (length xs - 1)" .
      with p ne show ?thesis by (simp add: last_conv_nth)
    qed
  qed
  with l have "\<forall>k\<in>set xs. k < v" by fastforce
  with s show ?thesis by (simp add: sorted_wrt_append)
qed

lemma index_set_shape:
  assumes "chain f n 0 r" "0 < n"
  defines "indices \<equiv> (if last (0 # r) \<noteq> n - 1 then (0 # r) @ [n - 1] else 0 # r)"
  shows "indices \<noteq> [] \<and> sorted_wrt (<) indices \<and> hd indices = 0 \<and> last indices = n - 1"
proof -
  have s: "sorted_wrt (<) (0 # r)" using assms(1) by (rule chain_sorted)
  have l: "last (0 # r) < n" using assms(1,2) by (rule chain_last)
  show ?thesis
  proof (cases "last (0 # r) \<noteq> n - 1")
    case True
    with l have "last (0 # r) < n - 1" by simp
    with s have "sorted_wrt (<) ((0 # r) @ [n - 1])" by (intro sorted_wrt_snoc_less) simp_all
    with True show ?thesis by (simp add: indices_def)
  next
    case False
    with s show ?thesis by (simp add: indices_def)
  qed
qed

section \<open>Further facts on the compression\<close>

lemma take_indices_in_range:
  "\<forall>k\<in>set ks. 0 \<le> k \<and> k < int (length a) \<Longrightarrow>
     take_indices a ks = Inr (map (\<lambda>k. a ! nat k) ks)"
  by (induction ks) (simp_all add: getitem_in_range)

lemma index_set_bounds:
  assumes "chain f n 0 r" "0 < n"
  defines "indices \<equiv> (if last (0 # r) \<noteq> n - 1 then (0 # r) @ [n - 1] else 0 # r)"
  shows "\<forall>k\<in>set indices. 0 \<le> k \<and> k < n"
proof -
  have "\<forall>k\<in>set r. 0 \<le> k \<and> k < n"
    using chain_bound[OF assms(1)] by fastforce
  with assms(2) show ?thesis by (simp add: indices_def)
qed

lemma chain_pairs:
  "chain f n i r \<Longrightarrow> p + 1 < length (i # r) \<Longrightarrow>
     f ((i # r) ! p) ((i # r) ! (p + 1)) \<and>
     (\<forall>k. (i # r) ! p < k \<and> k < (i # r) ! (p + 1) \<longrightarrow> \<not> f ((i # r) ! p) k)"
proof (induction r arbitrary: i p)
  case Nil
  then show ?case by simp
next
  case (Cons j js)
  show ?case
  proof (cases p)
    case 0
    with Cons.prems show ?thesis by simp
  next
    case (Suc q)
    from Cons.prems have "chain f n j js" by simp
    moreover from Cons.prems Suc have "q + 1 < length (j # js)" by simp
    ultimately have "f ((j # js) ! q) ((j # js) ! (q + 1)) \<and>
      (\<forall>k. (j # js) ! q < k \<and> k < (j # js) ! (q + 1) \<longrightarrow> \<not> f ((j # js) ! q) k)"
      by (rule Cons.IH)
    with Suc show ?thesis by simp
  qed
qed

lemma sqrt_gt_iff: "0 \<le> d \<Longrightarrow> (d < sqrt a) = (d\<^sup>2 < a)"
proof -
  assume d: "0 \<le> d"
  then have "d = sqrt (d\<^sup>2)" by simp
  then have "(d < sqrt a) = (sqrt (d\<^sup>2) < sqrt a)" by simp
  then show ?thesis by (simp only: real_sqrt_less_iff)
qed

lemmas compress_eval = compress_trajectory_def compress_loops_def outer.simps scan.simps
  exceeds_def distance_def getitem_def sqrt_gt_iff

lemma chain_unique: "chain f n i r \<Longrightarrow> chain f n i r' \<Longrightarrow> r = r'"
proof (induction r arbitrary: i r')
  case Nil
  then show ?case by (cases r') auto
next
  case (Cons j js)
  show ?case
  proof (cases r')
    case Nil
    with Cons.prems show ?thesis by auto
  next
    case (Cons j' js')
    have "j = j'"
    proof (rule ccontr)
      assume "j \<noteq> j'"
      then consider "j < j'" | "j' < j" by linarith
      then show False using Cons.prems Cons by cases auto
    qed
    moreover from Cons.prems Cons \<open>j = j'\<close> have "js = js'" by (auto dest: Cons.IH)
    ultimately show ?thesis using Cons by simp
  qed
qed

lemma chain_reindexed:
  assumes f': "\<forall>a b. a < M \<and> b < M \<longrightarrow> f' (int a) (int b) = f (idx ! a) (idx ! b)"
  shows "chain f n i r \<Longrightarrow> \<forall>q\<le>length r. idx ! (p + q) = (i # r) ! q \<Longrightarrow>
     M = p + length r + 1 \<or> (M = p + length r + 2 \<and> idx ! (p + length r + 1) = n - 1 \<and> last (i # r) < n - 1) \<Longrightarrow>
     chain f' (int M) (int p) (map int [p + 1 ..< p + 1 + length r])"
proof (induction r arbitrary: i p)
  case Nil
  from Nil.prems(2) have ip: "idx ! p = i" by simp
  show ?case
  proof (cases "M = p + 1")
    case True
    then have "\<not> (int p < k \<and> k < int M)" for k by linarith
    then show ?thesis by auto
  next
    case False
    with Nil.prems(3) have M: "M = p + 2" "idx ! (p + 1) = n - 1" "i < n - 1" by auto
    have "\<not> f' (int p) k" if "int p < k" "k < int M" for k
    proof -
      from that M have k: "k = int (p + 1)" by simp
      from M have "p < M \<and> p + 1 < M" by simp
      with f' have "f' (int p) (int (p + 1)) = f (idx ! p) (idx ! (p + 1))" by blast
      with Nil.prems(1) ip M k show ?thesis by simp
    qed
    then show ?thesis by simp
  qed
next
  case (Cons j js)
  from Cons.prems(2) have ip: "idx ! p = i" by (auto dest: spec[of _ 0])
  from Cons.prems(2) have ij: "idx ! (p + 1) = j" by (auto dest: spec[of _ 1])
  from Cons.prems(1) have "chain f n j js" by simp
  moreover have "\<forall>q\<le>length js. idx ! ((p + 1) + q) = (j # js) ! q"
  proof (intro allI impI)
    fix q assume "q \<le> length js"
    with Cons.prems(2) have "idx ! (p + Suc q) = (i # j # js) ! Suc q" by (auto dest: spec[of _ "Suc q"])
    then show "idx ! ((p + 1) + q) = (j # js) ! q" by simp
  qed
  moreover from Cons.prems(3) have
    "M = (p + 1) + length js + 1 \<or>
     (M = (p + 1) + length js + 2 \<and> idx ! ((p + 1) + length js + 1) = n - 1 \<and> last (j # js) < n - 1)"
    by simp
  ultimately have IH: "chain f' (int M) (int (p + 1)) (map int [(p + 1) + 1 ..< (p + 1) + 1 + length js])"
    by (rule Cons.IH)
  define ks where "ks = map int [(p + 1) + 1 ..< (p + 1) + 1 + length js]"
  from Cons.prems(3) have pM: "p + 1 < M" by auto
  then have "p < M \<and> p + 1 < M" by simp
  with f' have "f' (int p) (int (p + 1)) = f (idx ! p) (idx ! (p + 1))" by blast
  with ip ij Cons.prems(1) have ff: "f' (int p) (int (p + 1))" by simp
  have none: "\<forall>k. int p < k \<and> k < int (p + 1) \<longrightarrow> \<not> f' (int p) k" by auto
  have "[p + 1 ..< p + 1 + length (j # js)] = (p + 1) # [(p + 1) + 1 ..< (p + 1) + 1 + length js]"
    by (subst upt_rec) simp
  then have eq: "map int [p + 1 ..< p + 1 + length (j # js)] = int (p + 1) # ks"
    by (simp only: ks_def list.map)
  have "chain f' (int M) (int p) (int (p + 1) # ks)"
    unfolding chain.simps using IH ff pM none by (simp only: ks_def) simp
  then show ?case by (simp only: eq)
qed

lemma upt_from_zero: "map int [0..<Suc m] = 0 # map int [1..<1 + m]"
  by (subst upt_rec) (simp del: upt_Suc)

lemma last_zero_upt: "last (0 # map int [1..<1 + m]) = int m"
  by (induction m) simp_all

lemma upt_snoc_int: "(0 # map int [1..<1 + m]) @ [int m + 1] = map int [0..<Suc (Suc m)]"
proof -
  have "map int [0..<Suc (Suc m)] = map int [0..<Suc m] @ [int (Suc m)]" by simp
  also have "\<dots> = (0 # map int [1..<1 + m]) @ [int m + 1]"
    by (simp only: upt_from_zero) simp
  finally show ?thesis by simp
qed

lemma chain_count_mono:
  assumes mono: "\<forall>i i' j. 0 \<le> i \<and> i \<le> i' \<and> i' < j \<and> j < n \<and> fb i' j \<longrightarrow> fa i j"
  shows "chain fa n ia ra \<Longrightarrow> chain fb n ib rb \<Longrightarrow> 0 \<le> ia \<Longrightarrow> ia \<le> ib \<Longrightarrow>
     length rb \<le> length ra \<and> (length ra = length rb \<longrightarrow> last (ia # ra) \<le> last (ib # rb))"
proof (induction rb arbitrary: ia ib ra)
  case Nil
  then show ?case by auto
next
  case (Cons jb rb')
  from Cons.prems(2) have b: "ib < jb" "jb < n" "fb ib jb" "chain fb n jb rb'" by simp_all
  with mono Cons.prems(3,4) have fa: "fa ia jb" by blast
  show ?case
  proof (cases ra)
    case Nil
    with Cons.prems(1) b Cons.prems(4) fa show ?thesis by auto
  next
    case (Cons ja ra')
    with \<open>chain fa n ia ra\<close> have a: "ia < ja" "ja < n" "chain fa n ja ra'"
      "\<forall>k. ia < k \<and> k < ja \<longrightarrow> \<not> fa ia k" by simp_all
    have "ja \<le> jb"
    proof (rule ccontr)
      assume "\<not> ja \<le> jb"
      with a(4) b(1) Cons.prems(4) have "\<not> fa ia jb" by auto
      with fa show False by simp
    qed
    moreover have "0 \<le> ja" using a(1) Cons.prems(3) by simp
    ultimately have "length rb' \<le> length ra' \<and>
        (length ra' = length rb' \<longrightarrow> last (ja # ra') \<le> last (jb # rb'))"
      using a(3) b(4) by (intro Cons.IH)
    with Cons show ?thesis by simp
  qed
qed

lemma compress_empty: "compress_loops far 0 = Inr [0, - 1]"
  by (simp add: compress_loops_def outer_empty)

lemma sorted_approach:
  assumes "sorted x" "sorted y" "length x = n" "length y = n"
  shows "\<forall>i i' j. i \<le> i' \<and> i' < j \<and> j < n \<longrightarrow> euclid x y i' j \<le> euclid x y i j"
proof (intro allI impI)
  fix i i' j :: nat
  assume h: "i \<le> i' \<and> i' < j \<and> j < n"
  have sq: "(a ! j - a ! i')\<^sup>2 \<le> (a ! j - a ! i)\<^sup>2" if "sorted a" "length a = n" for a :: "real list"
  proof -
    from that h have "a ! i \<le> a ! i'" "a ! i' \<le> a ! j"
      by (auto intro: sorted_nth_mono)
    then have "0 \<le> a ! j - a ! i'" "a ! j - a ! i' \<le> a ! j - a ! i" by simp_all
    then show ?thesis by (rule power_mono[rotated])
  qed
  from sq[OF assms(1,3)] sq[OF assms(2,4)]
  show "euclid x y i' j \<le> euclid x y i j"
    unfolding euclid_def by (intro real_sqrt_le_mono add_mono)
qed

lemma compress_small_delta:
  "compress_trajectory [0, 1, 2, 3, 4, 5] [0, 6, 10, 2, 10, 2] [0, 0, 0, 0, 0, 0] 5 = Inr [0, 1, 5]"
  by (simp add: compress_eval)

lemma compress_large_delta:
  "compress_trajectory [0, 1, 2, 3, 4, 5] [0, 6, 10, 2, 10, 2] [0, 0, 0, 0, 0, 0] 7 =
     Inr [0, 2, 3, 4, 5]"
  by (simp add: compress_eval)

lemma scan_while_returns: "scan_while far n i j = Some (scan far n i j)"
proof (induction far n i j rule: scan.induct)
  case (1 far n i j)
  show ?case
    by (subst scan_while.simps, subst scan.simps) (auto split: sum.splits simp: "1.IH")
qed

lemma outer_while_returns: "outer_while far n i indices = Some (outer far n i indices)"
proof (induction far n i indices rule: outer.induct)
  case (1 far n i indices)
  show ?case
    by (subst outer_while.simps, subst outer.simps)
       (auto split: sum.splits simp: scan_while_returns "1.IH")
qed

section \<open>Facts on the uniqueness filter\<close>













section \<open>Facts on the merge\<close>

text \<open>The two ways a merge changes the collection: an entry is added to a record, or a
  fresh record is appended.\<close>

definition add_entry :: "method_name \<Rightarrow> real list \<times> real list \<Rightarrow> solution_record \<Rightarrow> solution_record" where
  "add_entry m xy r = r\<lparr>solutions := (solutions r)(m \<mapsto> xy)\<rparr>"

definition fresh_record :: "key \<Rightarrow> real list \<Rightarrow> method_name \<Rightarrow> real list \<times> real list \<Rightarrow> solution_record" where
  "fresh_record k t m xy =
     (case k of (x0, y0, gamma1, gamma2, alpha) \<Rightarrow> new_record x0 y0 gamma1 gamma2 alpha t m xy)"

lemma key_of_add_entry [simp]: "key_of (add_entry m xy r) = key_of r"
  by (simp add: add_entry_def key_of_def)

lemma rec_t_add_entry [simp]: "rec_t (add_entry m xy r) = rec_t r"
  by (simp add: add_entry_def)

lemma solutions_add_entry [simp]: "solutions (add_entry m xy r) = (solutions r)(m \<mapsto> xy)"
  by (simp add: add_entry_def)

lemma key_of_fresh [simp]: "key_of (fresh_record k t m xy) = k"
  by (cases k) (simp add: fresh_record_def new_record_def key_of_def)

lemma rec_t_fresh [simp]: "rec_t (fresh_record k t m xy) = t"
  by (cases k) (simp add: fresh_record_def new_record_def)

lemma solutions_fresh [simp]: "solutions (fresh_record k t m xy) = [m \<mapsto> xy]"
  by (cases k) (simp add: fresh_record_def new_record_def)

lemma merge_record_Nil: "merge_record [] k m t xy = [fresh_record k t m xy]"
  by (cases k) (simp add: fresh_record_def)

lemma merge_record_Cons:
  "merge_record (r # rs) k m t xy =
     (if key_of r = k then add_entry m xy r # rs else r # merge_record rs k m t xy)"
  by (cases k) (simp add: add_entry_def)

lemma keys_merge_record:
  "map key_of (merge_record rs k m t xy) =
     (if k \<in> set (map key_of rs) then map key_of rs else map key_of rs @ [k])"
  by (induction rs) (auto simp: merge_record_Nil merge_record_Cons)

lemma distinct_merge_record:
  "distinct (map key_of rs) \<Longrightarrow> distinct (map key_of (merge_record rs k m t xy))"
  by (simp add: keys_merge_record)

lemma times_merge_record:
  "map rec_t (merge_record rs k m t xy) =
     (if k \<in> set (map key_of rs) then map rec_t rs else map rec_t rs @ [t])"
  by (induction rs) (auto simp: merge_record_Nil merge_record_Cons)

lemma find_merge_record_same:
  "find (\<lambda>r. key_of r = k) (merge_record rs k m t xy) =
     Some (case find (\<lambda>r. key_of r = k) rs of
             None \<Rightarrow> fresh_record k t m xy
           | Some r \<Rightarrow> add_entry m xy r)"
  by (induction rs) (auto simp: merge_record_Nil merge_record_Cons)

lemma find_merge_record_other:
  "k' \<noteq> k \<Longrightarrow> find (\<lambda>r. key_of r = k') (merge_record rs k m t xy) = find (\<lambda>r. key_of r = k') rs"
  by (induction rs) (auto simp: merge_record_Nil merge_record_Cons)

lemma filter_distinct_key:
  "distinct (map key_of rs) \<Longrightarrow>
     filter (\<lambda>r. key_of r = k) rs =
       (case find (\<lambda>r. key_of r = k) rs of None \<Rightarrow> [] | Some r \<Rightarrow> [r])"
proof (induction rs)
  case Nil
  then show ?case by simp
next
  case (Cons r rs)
  show ?case
  proof (cases "key_of r = k")
    case True
    from Cons.prems have "key_of r \<notin> set (map key_of rs)" by simp
    with True have "\<forall>q\<in>set rs. key_of q \<noteq> k" by (metis imageI set_map)
    then have "filter (\<lambda>r. key_of r = k) rs = []" by (simp add: filter_empty_conv)
    with True show ?thesis by simp
  next
    case False
    with Cons show ?thesis by simp
  qed
qed

lemma add_method_eq_merge:
  "k \<in> set (map key_of rs) \<Longrightarrow> add_method rs k m xy = merge_record rs k m t xy"
  by (induction rs) (auto simp: merge_record_Cons add_entry_def)

lemma merge_record_absent:
  "k \<notin> set (map key_of rs) \<Longrightarrow> merge_record rs k m t xy = rs @ [fresh_record k t m xy]"
  by (induction rs) (auto simp: merge_record_Nil merge_record_Cons)

lemma merge_seen_eq_merge_record: "merge_seen rs k m t xy = merge_record rs k m t xy"
proof -
  obtain x0 y0 gamma1 gamma2 alpha where k: "k = (x0, y0, gamma1, gamma2, alpha)"
    by (cases k)
  show ?thesis
  proof (cases "k \<in> set (map key_of rs)")
    case True
    then have "add_method rs k m xy = merge_record rs k m t xy" by (rule add_method_eq_merge)
    with True show ?thesis unfolding merge_seen_def k by simp
  next
    case False
    then have "merge_record rs k m t xy = rs @ [fresh_record k t m xy]" by (rule merge_record_absent)
    with False show ?thesis unfolding merge_seen_def fresh_record_def k by simp
  qed
qed

text \<open>
  A run is what a successful grid point hands to the merge: the key, the method, the time
  array and the pair of arrays. \<open>merge_runs\<close> merges a sequence of runs in order.
\<close>

type_synonym run = "key \<times> method_name \<times> real list \<times> (real list \<times> real list)"

definition merge_runs :: "solution_record list \<Rightarrow> run list \<Rightarrow> solution_record list" where
  "merge_runs rs runs = fold (\<lambda>(k, m, t, xy) rs. merge_record rs k m t xy) runs rs"

definition run_id :: "run \<Rightarrow> key \<times> method_name" where
  "run_id u = (fst u, fst (snd u))"

lemma merge_runs_Nil [simp]: "merge_runs rs [] = rs"
  by (simp add: merge_runs_def)

lemma merge_runs_Cons [simp]:
  "merge_runs rs ((k, m, t, xy) # runs) = merge_runs (merge_record rs k m t xy) runs"
  by (simp add: merge_runs_def)

lemma distinct_merge_runs:
  "distinct (map key_of rs) \<Longrightarrow> distinct (map key_of (merge_runs rs runs))"
proof (induction runs arbitrary: rs)
  case Nil
  then show ?case by simp
next
  case (Cons u runs)
  obtain k m t xy where u: "u = (k, m, t, xy)" by (cases u)
  from Cons.prems have "distinct (map key_of (merge_record rs k m t xy))"
    by (rule distinct_merge_record)
  then show ?case unfolding u merge_runs_Cons by (rule Cons.IH)
qed

lemma find_merge_record_keeps:
  assumes "find (\<lambda>r. key_of r = k) rs = Some r"
  shows "\<exists>r'. find (\<lambda>r. key_of r = k) (merge_record rs k' m' t' xy') = Some r' \<and>
           rec_t r' = rec_t r \<and> dom (solutions r) \<subseteq> dom (solutions r') \<and>
           ((k', m') \<noteq> (k, m) \<longrightarrow> solutions r' m = solutions r m)"
proof (cases "k' = k")
  case True
  have "find (\<lambda>r. key_of r = k) (merge_record rs k m' t' xy') = Some (add_entry m' xy' r)"
    by (simp add: find_merge_record_same assms)
  with True show ?thesis by auto
next
  case False
  then have "find (\<lambda>r. key_of r = k) (merge_record rs k' m' t' xy') = Some r"
    using assms by (simp add: find_merge_record_other)
  then show ?thesis by simp
qed

lemma find_merge_runs_keeps:
  "find (\<lambda>r. key_of r = k) rs = Some r \<Longrightarrow>
     \<exists>r'. find (\<lambda>r. key_of r = k) (merge_runs rs runs) = Some r' \<and>
       rec_t r' = rec_t r \<and> dom (solutions r) \<subseteq> dom (solutions r') \<and>
       ((k, m) \<notin> run_id ` set runs \<longrightarrow> solutions r' m = solutions r m)"
proof (induction runs arbitrary: rs r)
  case Nil
  then show ?case by simp
next
  case (Cons u runs)
  obtain k' m' t' xy' where u: "u = (k', m', t', xy')" by (cases u)
  from find_merge_record_keeps[OF Cons.prems, of k' m' t' xy' m]
  obtain r1 where r1: "find (\<lambda>r. key_of r = k) (merge_record rs k' m' t' xy') = Some r1"
    "rec_t r1 = rec_t r" "dom (solutions r) \<subseteq> dom (solutions r1)"
    "(k', m') \<noteq> (k, m) \<longrightarrow> solutions r1 m = solutions r m" by blast
  from Cons.IH[OF r1(1)]
  obtain r2 where r2: "find (\<lambda>r. key_of r = k) (merge_runs (merge_record rs k' m' t' xy') runs) = Some r2"
    "rec_t r2 = rec_t r1" "dom (solutions r1) \<subseteq> dom (solutions r2)"
    "(k, m) \<notin> run_id ` set runs \<longrightarrow> solutions r2 m = solutions r1 m" by blast
  have "(k, m) \<notin> run_id ` set (u # runs) \<longrightarrow> solutions r2 m = solutions r m"
  proof
    assume a: "(k, m) \<notin> run_id ` set (u # runs)"
    then have "(k', m') \<noteq> (k, m)" by (auto simp: u run_id_def)
    moreover from a have "(k, m) \<notin> run_id ` set runs" by simp
    ultimately show "solutions r2 m = solutions r m" using r1(4) r2(4) by simp
  qed
  moreover have "dom (solutions r) \<subseteq> dom (solutions r2)" using r1(3) r2(3) by blast
  moreover have "rec_t r2 = rec_t r" using r1(2) r2(2) by simp
  ultimately show ?case unfolding u merge_runs_Cons using r2(1) by blast
qed

lemma fold_preserves:
  assumes "\<And>x s. P s \<Longrightarrow> P (f x s)" and "P s"
  shows "P (fold f xs s)"
  using assms(2) by (induction xs arbitrary: s) (simp_all add: assms(1))

lemma records_count_solution [simp]: "records (count_solution period st) = records st"
  by (simp add: count_solution_def Let_def)

lemma records_log_error [simp]: "records (log_error m a g1 g2 x0 e st) = records st"
  by (simp add: log_error_def)

lemma distinct_body_merge:
  "distinct (map key_of (records st)) \<Longrightarrow>
     distinct (map key_of (records (body_merge solve delta x0 y0 gamma1 gamma2 alpha m st)))"
  by (auto simp: body_merge_def distinct_merge_record simp del: merge_record.simps
      split: sum.splits prod.splits)

lemma distinct_body_seen:
  "distinct (map key_of (records st)) \<Longrightarrow>
     distinct (map key_of (records (body_seen solve x0 y0 gamma1 gamma2 m alpha st)))"
  by (auto simp: body_seen_def merge_seen_eq_merge_record distinct_merge_record
      simp del: merge_record.simps split: sum.splits)

lemma distinct_sweep_merge:
  assumes "distinct (map key_of (records st))"
  shows "distinct (map key_of (records
           (sweep_merge solve initial_conditions gamma_1_list gamma_2_list alpha_list all_methods delta st)))"
  unfolding sweep_merge_def using assms
  by (intro fold_preserves[where P = "\<lambda>s. distinct (map key_of (records s))"])
     (auto intro!: fold_preserves[where P = "\<lambda>s. distinct (map key_of (records s))"] distinct_body_merge)

lemma distinct_sweep_seen:
  assumes "distinct (map key_of (records st))"
  shows "distinct (map key_of (records
           (sweep_seen solve initial_conditions gamma_1_list gamma_2_list all_methods alpha_list st)))"
  unfolding sweep_seen_def using assms
  by (intro fold_preserves[where P = "\<lambda>s. distinct (map key_of (records s))"])
     (auto intro!: fold_preserves[where P = "\<lambda>s. distinct (map key_of (records s))"] distinct_body_seen)

lemma merge_runs_append: "merge_runs rs (a @ b) = merge_runs (merge_runs rs a) b"
  by (simp add: merge_runs_def)

lemma merge_runs_step:
  assumes "\<exists>runs. records st = merge_runs rs0 runs"
    and "records st' = records st \<or> (\<exists>k m t xy. records st' = merge_record (records st) k m t xy)"
  shows "\<exists>runs. records st' = merge_runs rs0 runs"
proof -
  from assms(1) obtain runs where runs: "records st = merge_runs rs0 runs" by blast
  from assms(2) show ?thesis
  proof
    assume "records st' = records st"
    with runs show ?thesis by auto
  next
    assume "\<exists>k m t xy. records st' = merge_record (records st) k m t xy"
    then obtain k m t xy where "records st' = merge_record (records st) k m t xy" by blast
    with runs have "records st' = merge_runs rs0 (runs @ [(k, m, t, xy)])"
      by (simp add: merge_runs_append del: merge_record.simps)
    then show ?thesis by blast
  qed
qed

lemma body_merge_records:
  "records (body_merge solve delta x0 y0 gamma1 gamma2 alpha m st) = records st \<or>
   (\<exists>k m' t xy. records (body_merge solve delta x0 y0 gamma1 gamma2 alpha m st) =
      merge_record (records st) k m' t xy)"
proof (cases "solve m alpha gamma1 gamma2 x0 y0")
  case (Inl e)
  then show ?thesis by (simp add: body_merge_def)
next
  case (Inr s)
  show ?thesis
  proof (cases "success s")
    case False
    with Inr show ?thesis by (simp add: body_merge_def)
  next
    case True
    show ?thesis
    proof (cases "compress_solution s delta")
      case (Inl e)
      with Inr True show ?thesis by (simp add: body_merge_def)
    next
      case c: (Inr q)
      obtain indices x_filt y_filt t_filt where q: "q = (indices, x_filt, y_filt, t_filt)"
        by (cases q)
      from Inr True c have "records (body_merge solve delta x0 y0 gamma1 gamma2 alpha m st) =
          merge_record (records st) (x0, y0, gamma1, gamma2, alpha) m t_filt (x_filt, y_filt)"
        unfolding q by (simp add: body_merge_def del: merge_record.simps)
      then show ?thesis by blast
    qed
  qed
qed

lemma body_seen_records:
  "records (body_seen solve x0 y0 gamma1 gamma2 m alpha st) = records st \<or>
   (\<exists>k m' t xy. records (body_seen solve x0 y0 gamma1 gamma2 m alpha st) =
      merge_record (records st) k m' t xy)"
proof (cases "solve m alpha gamma1 gamma2 x0 y0")
  case (Inl e)
  then show ?thesis by (simp add: body_seen_def)
next
  case (Inr s)
  show ?thesis
  proof (cases "success s")
    case False
    with Inr show ?thesis by (simp add: body_seen_def)
  next
    case True
    with Inr have "records (body_seen solve x0 y0 gamma1 gamma2 m alpha st) =
        merge_record (records st) (x0, y0, gamma1, gamma2, alpha) m (sol_t s) (sol_y0 s, sol_y1 s)"
      by (simp add: body_seen_def merge_seen_eq_merge_record del: merge_record.simps)
    then show ?thesis by blast
  qed
qed

lemma sweep_merge_runs:
  "\<exists>runs. records (sweep_merge solve initial_conditions gamma_1_list gamma_2_list alpha_list
      all_methods delta st) = merge_runs (records st) runs"
proof -
  let ?P = "\<lambda>s. \<exists>runs. records s = merge_runs (records st) runs"
  have step: "?P (body_merge solve delta x0 y0 gamma1 gamma2 alpha m s)" if "?P s"
    for x0 y0 gamma1 gamma2 alpha m s
    using that body_merge_records by (rule merge_runs_step)
  have "?P st" by (rule exI[of _ "[]"]) simp
  then show ?thesis
    unfolding sweep_merge_def
    by (intro fold_preserves[where P = ?P]) (auto intro!: fold_preserves[where P = ?P] step)
qed

lemma sweep_seen_runs:
  "\<exists>runs. records (sweep_seen solve initial_conditions gamma_1_list gamma_2_list all_methods
      alpha_list st) = merge_runs (records st) runs"
proof -
  let ?P = "\<lambda>s. \<exists>runs. records s = merge_runs (records st) runs"
  have step: "?P (body_seen solve x0 y0 gamma1 gamma2 m alpha s)" if "?P s"
    for x0 y0 gamma1 gamma2 alpha m s
    using that body_seen_records by (rule merge_runs_step)
  have "?P st" by (rule exI[of _ "[]"]) simp
  then show ?thesis
    unfolding sweep_seen_def
    by (intro fold_preserves[where P = ?P]) (auto intro!: fold_preserves[where P = ?P] step)
qed

section \<open>Failed integrations\<close>

text \<open>
  The grid points in the order the nested loops visit them, and what counts as a failed
  integration: the call raised, or the returned object has \<^verbatim>\<open>success = False\<close>.
\<close>

definition grid_98 ::
  "(real \<times> real) list \<Rightarrow> real list \<Rightarrow> real list \<Rightarrow> real list \<Rightarrow>
     (real \<times> real \<times> real \<times> real \<times> real) list" where
  "grid_98 initial_conditions gamma_1_list gamma_2_list alpha_list =
     concat (map (\<lambda>(x0, y0).
       concat (map (\<lambda>gamma1.
         concat (map (\<lambda>gamma2.
           map (\<lambda>alpha. (x0, y0, gamma1, gamma2, alpha)) alpha_list)
           gamma_2_list))
         gamma_1_list))
       initial_conditions)"

definition grid_unique ::
  "(real \<times> real) list \<Rightarrow> real list \<Rightarrow> real list \<Rightarrow> method_name list \<Rightarrow> real list \<Rightarrow>
     (real \<times> real \<times> real \<times> real \<times> method_name \<times> real) list" where
  "grid_unique initial_conditions gamma_1_list gamma_2_list all_methods alpha_list =
     concat (map (\<lambda>(x0, y0).
       concat (map (\<lambda>gamma1.
         concat (map (\<lambda>gamma2.
           concat (map (\<lambda>m.
             map (\<lambda>alpha. (x0, y0, gamma1, gamma2, m, alpha)) alpha_list)
             all_methods))
           gamma_2_list))
         gamma_1_list))
       initial_conditions)"

definition failed :: "error + sol \<Rightarrow> bool" where
  "failed outcome = (case outcome of Inl e \<Rightarrow> True | Inr s \<Rightarrow> \<not> success s)"

definition step_98 ::
  "solver \<Rightarrow> method_name \<Rightarrow> real \<Rightarrow> real \<times> real \<times> real \<times> real \<times> real \<Rightarrow> sweep_state \<Rightarrow> sweep_state" where
  "step_98 solve m delta p =
     (case p of (x0, y0, gamma1, gamma2, alpha) \<Rightarrow> body_98 solve m delta x0 y0 gamma1 gamma2 alpha)"

definition fails_98 :: "solver \<Rightarrow> method_name \<Rightarrow> real \<times> real \<times> real \<times> real \<times> real \<Rightarrow> bool" where
  "fails_98 solve m p =
     (case p of (x0, y0, gamma1, gamma2, alpha) \<Rightarrow> failed (solve m alpha gamma1 gamma2 x0 y0))"

definition step_unique ::
  "solver \<Rightarrow> real \<Rightarrow> real \<times> real \<times> real \<times> real \<times> method_name \<times> real \<Rightarrow> unique_state \<Rightarrow> unique_state" where
  "step_unique solve epsilon p =
     (case p of (x0, y0, gamma1, gamma2, m, alpha) \<Rightarrow>
        body_unique solve epsilon x0 y0 gamma1 gamma2 m alpha)"

definition fails_unique ::
  "solver \<Rightarrow> real \<times> real \<times> real \<times> real \<times> method_name \<times> real \<Rightarrow> bool" where
  "fails_unique solve p =
     (case p of (x0, y0, gamma1, gamma2, m, alpha) \<Rightarrow> failed (solve m alpha gamma1 gamma2 x0 y0))"

text \<open>What a sweep stores: everything in the state except the printed lines (and, in the
  uniqueness sweep, the counter of attempts, which counts failures too).\<close>

definition stored_98 :: "sweep_state \<Rightarrow> solution_record list \<times> int \<times> int \<times> int" where
  "stored_98 st = (records st, solution_count st, skipped_total st, kept_total st)"

definition stored_unique :: "unique_state \<Rightarrow> entry list \<times> signature list \<times> int" where
  "stored_unique st = (entries st, saved_signatures st, skipped_due_to_similarity st)"

lemma fold_concat_map: "fold f (concat (map g xs)) = fold (\<lambda>x. fold f (g x)) xs"
  by (induction xs) (simp_all add: fun_eq_iff)

lemma fold_map_fun: "fold f (map g xs) = fold (\<lambda>x. f (g x)) xs"
  by (induction xs) (simp_all add: fun_eq_iff)

lemma sweep_98_grid:
  "sweep_98 solve initial_conditions gamma_1_list gamma_2_list alpha_list m delta st =
     fold (step_98 solve m delta)
       (grid_98 initial_conditions gamma_1_list gamma_2_list alpha_list) st"
  unfolding sweep_98_def grid_98_def step_98_def
  by (simp add: fold_concat_map fold_map_fun case_prod_unfold)

lemma sweep_unique_grid:
  "sweep_unique solve initial_conditions gamma_1_list gamma_2_list all_methods alpha_list epsilon st =
     fold (step_unique solve epsilon)
       (grid_unique initial_conditions gamma_1_list gamma_2_list all_methods alpha_list) st"
  unfolding sweep_unique_def grid_unique_def step_unique_def
  by (simp add: fold_concat_map fold_map_fun case_prod_unfold)

lemma body_98_raises:
  "solve m alpha gamma1 gamma2 x0 y0 = Inl e \<Longrightarrow>
     body_98 solve m delta x0 y0 gamma1 gamma2 alpha st =
       st\<lparr>printed := printed st @ [Error_line m alpha gamma1 gamma2 x0 e]\<rparr>"
  by (simp add: body_98_def log_error_def)

lemma body_98_unsuccessful:
  "solve m alpha gamma1 gamma2 x0 y0 = Inr s \<Longrightarrow> \<not> success s \<Longrightarrow>
     body_98 solve m delta x0 y0 gamma1 gamma2 alpha st = st"
  by (simp add: body_98_def)

lemma body_unique_raises:
  "solve m alpha gamma1 gamma2 x0 y0 = Inl e \<Longrightarrow>
     body_unique solve epsilon x0 y0 gamma1 gamma2 m alpha st =
       st\<lparr>total_attempts := total_attempts st + 1,
          printed := printed st @ [Error_line m alpha gamma1 gamma2 x0 e]\<rparr>"
  by (simp add: body_unique_def log_error_def)

lemma body_unique_unsuccessful:
  "solve m alpha gamma1 gamma2 x0 y0 = Inr s \<Longrightarrow> \<not> success s \<Longrightarrow>
     body_unique solve epsilon x0 y0 gamma1 gamma2 m alpha st =
       st\<lparr>total_attempts := total_attempts st + 1\<rparr>"
  by (simp add: body_unique_def)

lemma step_98_fails: "fails_98 solve m p \<Longrightarrow> stored_98 (step_98 solve m delta p st) = stored_98 st"
  by (cases p)
     (auto simp: fails_98_def failed_def step_98_def stored_98_def body_98_raises
        body_98_unsuccessful split: sum.splits)

lemma step_unique_fails:
  "fails_unique solve p \<Longrightarrow> stored_unique (step_unique solve epsilon p st) = stored_unique st"
  by (cases p)
     (auto simp: fails_unique_def failed_def step_unique_def stored_unique_def body_unique_raises
        body_unique_unsuccessful split: sum.splits)

lemma stored_count_solution:
  "stored_98 (count_solution period st) =
     (records st, solution_count st + 1, skipped_total st, kept_total st)"
  by (simp add: stored_98_def count_solution_def Let_def)

lemma step_98_cong:
  assumes "stored_98 st = stored_98 st'"
  shows "stored_98 (step_98 solve m delta p st) = stored_98 (step_98 solve m delta p st')"
proof -
  obtain x0 y0 gamma1 gamma2 alpha where p: "p = (x0, y0, gamma1, gamma2, alpha)" by (cases p)
  from assms have eq: "records st = records st'" "solution_count st = solution_count st'"
    "skipped_total st = skipped_total st'" "kept_total st = kept_total st'"
    by (simp_all add: stored_98_def)
  show ?thesis
  proof (cases "solve m alpha gamma1 gamma2 x0 y0")
    case (Inl e)
    then show ?thesis
      unfolding p step_98_def using eq by (simp add: body_98_raises stored_98_def)
  next
    case (Inr s)
    show ?thesis
    proof (cases "success s")
      case False
      with Inr show ?thesis
        unfolding p step_98_def using assms by (simp add: body_98_unsuccessful)
    next
      case True
      show ?thesis
      proof (cases "compress_solution s delta")
        case (Inl e)
        with Inr True show ?thesis
          unfolding p step_98_def using eq by (simp add: body_98_def stored_98_def log_error_def)
      next
        case c: (Inr q)
        obtain indices x_filt y_filt t_filt where q: "q = (indices, x_filt, y_filt, t_filt)"
          by (cases q)
        from Inr True c show ?thesis
          unfolding p q step_98_def using eq by (simp add: body_98_def stored_count_solution)
      qed
    qed
  qed
qed

lemma step_unique_cong:
  assumes "stored_unique st = stored_unique st'"
  shows "stored_unique (step_unique solve epsilon p st) = stored_unique (step_unique solve epsilon p st')"
proof -
  obtain x0 y0 gamma1 gamma2 m alpha where p: "p = (x0, y0, gamma1, gamma2, m, alpha)" by (cases p)
  from assms have eq: "entries st = entries st'" "saved_signatures st = saved_signatures st'"
    "skipped_due_to_similarity st = skipped_due_to_similarity st'"
    by (simp_all add: stored_unique_def)
  show ?thesis
    unfolding p step_unique_def body_unique_def using eq
    by (auto split: sum.splits simp: stored_unique_def log_error_def Let_def)
qed

lemma fold_skips:
  assumes cong: "\<And>p s s'. V s = V s' \<Longrightarrow> V (f p s) = V (f p s')"
    and skip: "\<And>p s. bad p \<Longrightarrow> V (f p s) = V s"
  shows "V s = V s' \<Longrightarrow> V (fold f ps s) = V (fold f (filter (\<lambda>p. \<not> bad p) ps) s')"
proof (induction ps arbitrary: s s')
  case Nil
  then show ?case by simp
next
  case (Cons p ps)
  show ?case
  proof (cases "bad p")
    case True
    then have "V (f p s) = V s'" using Cons.prems by (simp add: skip)
    then have "V (fold f ps (f p s)) = V (fold f (filter (\<lambda>p. \<not> bad p) ps) s')" by (rule Cons.IH)
    with True show ?thesis by simp
  next
    case False
    from Cons.prems have "V (f p s) = V (f p s')" by (rule cong)
    then have "V (fold f ps (f p s)) = V (fold f (filter (\<lambda>p. \<not> bad p) ps) (f p s'))" by (rule Cons.IH)
    with False show ?thesis by simp
  qed
qed

lemma sweep_98_skips:
  "stored_98 (sweep_98 solve initial_conditions gamma_1_list gamma_2_list alpha_list m delta st) =
   stored_98 (fold (step_98 solve m delta)
     (filter (\<lambda>p. \<not> fails_98 solve m p)
        (grid_98 initial_conditions gamma_1_list gamma_2_list alpha_list)) st)"
  unfolding sweep_98_grid
proof (rule fold_skips[where V = stored_98 and bad = "fails_98 solve m"])
  show "stored_98 (step_98 solve m delta p s) = stored_98 (step_98 solve m delta p s')"
    if "stored_98 s = stored_98 s'" for p s s'
    using that by (rule step_98_cong)
  show "stored_98 (step_98 solve m delta p s) = stored_98 s" if "fails_98 solve m p" for p s
    using that by (rule step_98_fails)
  show "stored_98 st = stored_98 st" by (rule refl)
qed

lemma sweep_unique_skips:
  "stored_unique (sweep_unique solve initial_conditions gamma_1_list gamma_2_list all_methods
      alpha_list epsilon st) =
   stored_unique (fold (step_unique solve epsilon)
     (filter (\<lambda>p. \<not> fails_unique solve p)
        (grid_unique initial_conditions gamma_1_list gamma_2_list all_methods alpha_list)) st)"
  unfolding sweep_unique_grid
proof (rule fold_skips[where V = stored_unique and bad = "fails_unique solve"])
  show "stored_unique (step_unique solve epsilon p s) = stored_unique (step_unique solve epsilon p s')"
    if "stored_unique s = stored_unique s'" for p s s'
    using that by (rule step_unique_cong)
  show "stored_unique (step_unique solve epsilon p s) = stored_unique s"
    if "fails_unique solve p" for p s
    using that by (rule step_unique_fails)
  show "stored_unique st = stored_unique st" by (rule refl)
qed

text \<open>A solver that raises at \<open>alpha = 1\<close>, returns an unsuccessful result at \<open>alpha = 2\<close> and
  a two-sample trajectory everywhere else.\<close>

definition flaky :: solver where
  "flaky m alpha gamma1 gamma2 x0 y0 =
     (if alpha = 1 then Inl ValueError
      else if alpha = 2 then Inr \<lparr>success = False, sol_t = [0], sol_y0 = [x0], sol_y1 = [y0]\<rparr>
      else Inr \<lparr>success = True, sol_t = [0, 1], sol_y0 = [x0, x0 + 1], sol_y1 = [y0, y0]\<rparr>)"

section \<open>The sweeps as sequences of merges\<close>

text \<open>
  The grid points of the merging sweep of 95 in the order its loops visit them (the method
  is the innermost loop); the unnamed notebook visits its grid in the order of
  \<open>grid_unique\<close>. \<open>run_merge\<close> and \<open>run_seen\<close> give the run a grid point hands to the merge:
  none when the integration or the compression fails, otherwise the point's own key and
  method with the arrays computed from the solution.
\<close>

definition grid_merge ::
  "(real \<times> real) list \<Rightarrow> real list \<Rightarrow> real list \<Rightarrow> real list \<Rightarrow> method_name list \<Rightarrow>
     (real \<times> real \<times> real \<times> real \<times> real \<times> method_name) list" where
  "grid_merge initial_conditions gamma_1_list gamma_2_list alpha_list all_methods =
     concat (map (\<lambda>(x0, y0).
       concat (map (\<lambda>gamma1.
         concat (map (\<lambda>gamma2.
           concat (map (\<lambda>alpha.
             map (\<lambda>m. (x0, y0, gamma1, gamma2, alpha, m)) all_methods)
             alpha_list))
           gamma_2_list))
         gamma_1_list))
       initial_conditions)"

definition run_merge ::
  "solver \<Rightarrow> real \<Rightarrow> real \<times> real \<times> real \<times> real \<times> real \<times> method_name \<Rightarrow> run list" where
  "run_merge solve delta p =
     (case p of (x0, y0, gamma1, gamma2, alpha, m) \<Rightarrow>
        (case solve m alpha gamma1 gamma2 x0 y0 of
           Inl e \<Rightarrow> []
         | Inr s \<Rightarrow>
             if success s then
               (case compress_trajectory (sol_t s) (sol_y0 s) (sol_y1 s) delta of
                  Inl e \<Rightarrow> []
                | Inr indices \<Rightarrow>
                    (case (take_indices (sol_y0 s) indices, take_indices (sol_y1 s) indices,
                           take_indices (sol_t s) indices) of
                       (Inr x_filt, Inr y_filt, Inr t_filt) \<Rightarrow>
                         [((x0, y0, gamma1, gamma2, alpha), m, t_filt, (x_filt, y_filt))]
                     | _ \<Rightarrow> []))
             else []))"

definition run_seen ::
  "solver \<Rightarrow> real \<times> real \<times> real \<times> real \<times> method_name \<times> real \<Rightarrow> run list" where
  "run_seen solve p =
     (case p of (x0, y0, gamma1, gamma2, m, alpha) \<Rightarrow>
        (case solve m alpha gamma1 gamma2 x0 y0 of
           Inl e \<Rightarrow> []
         | Inr s \<Rightarrow>
             if success s
             then [((x0, y0, gamma1, gamma2, alpha), m, sol_t s, (sol_y0 s, sol_y1 s))]
             else []))"

lemma body_merge_success:
  assumes "solve m alpha gamma1 gamma2 x0 y0 = Inr s" "success s"
    and "compress_trajectory (sol_t s) (sol_y0 s) (sol_y1 s) delta = Inr indices"
    and "take_indices (sol_y0 s) indices = Inr x_filt"
    and "take_indices (sol_y1 s) indices = Inr y_filt"
    and "take_indices (sol_t s) indices = Inr t_filt"
  shows "records (body_merge solve delta x0 y0 gamma1 gamma2 alpha m st) =
     merge_record (records st) (x0, y0, gamma1, gamma2, alpha) m t_filt (x_filt, y_filt)"
  using assms by (simp add: body_merge_def compress_solution_def del: merge_record.simps)

lemma body_seen_success:
  assumes "solve m alpha gamma1 gamma2 x0 y0 = Inr s" "success s"
  shows "records (body_seen solve x0 y0 gamma1 gamma2 m alpha st) =
     merge_seen (records st) (x0, y0, gamma1, gamma2, alpha) m (sol_t s) (sol_y0 s, sol_y1 s)"
  using assms by (simp add: body_seen_def)

lemma body_merge_run:
  "records (body_merge solve delta x0 y0 gamma1 gamma2 alpha m st) =
     merge_runs (records st) (run_merge solve delta (x0, y0, gamma1, gamma2, alpha, m))"
  by (simp add: body_merge_def run_merge_def compress_solution_def del: merge_record.simps
      split: sum.splits)

lemma body_seen_run:
  "records (body_seen solve x0 y0 gamma1 gamma2 m alpha st) =
     merge_runs (records st) (run_seen solve (x0, y0, gamma1, gamma2, m, alpha))"
  by (simp add: body_seen_def run_seen_def merge_seen_eq_merge_record del: merge_record.simps
      split: sum.splits)

lemma fold_merge_runs:
  assumes "\<And>p s. records (f p s) = merge_runs (records s) (g p)"
  shows "records (fold f ps s) = merge_runs (records s) (concat (map g ps))"
  by (induction ps arbitrary: s) (simp_all add: assms merge_runs_append)

lemma sweep_merge_records:
  "records (sweep_merge solve initial_conditions gamma_1_list gamma_2_list alpha_list
      all_methods delta st) =
   merge_runs (records st) (concat (map (run_merge solve delta)
     (grid_merge initial_conditions gamma_1_list gamma_2_list alpha_list all_methods)))"
proof -
  have "sweep_merge solve initial_conditions gamma_1_list gamma_2_list alpha_list all_methods
      delta st =
    fold (\<lambda>p. case p of (x0, y0, gamma1, gamma2, alpha, m) \<Rightarrow>
            body_merge solve delta x0 y0 gamma1 gamma2 alpha m)
      (grid_merge initial_conditions gamma_1_list gamma_2_list alpha_list all_methods) st"
    unfolding sweep_merge_def grid_merge_def
    by (simp add: fold_concat_map fold_map_fun case_prod_unfold)
  also have "records \<dots> = merge_runs (records st) (concat (map (run_merge solve delta)
     (grid_merge initial_conditions gamma_1_list gamma_2_list alpha_list all_methods)))"
    by (rule fold_merge_runs) (auto simp: body_merge_run)
  finally show ?thesis .
qed

lemma sweep_seen_records:
  "records (sweep_seen solve initial_conditions gamma_1_list gamma_2_list all_methods
      alpha_list st) =
   merge_runs (records st) (concat (map (run_seen solve)
     (grid_unique initial_conditions gamma_1_list gamma_2_list all_methods alpha_list)))"
proof -
  have "sweep_seen solve initial_conditions gamma_1_list gamma_2_list all_methods alpha_list st =
    fold (\<lambda>p. case p of (x0, y0, gamma1, gamma2, m, alpha) \<Rightarrow>
            body_seen solve x0 y0 gamma1 gamma2 m alpha)
      (grid_unique initial_conditions gamma_1_list gamma_2_list all_methods alpha_list) st"
    unfolding sweep_seen_def grid_unique_def
    by (simp add: fold_concat_map fold_map_fun case_prod_unfold)
  also have "records \<dots> = merge_runs (records st) (concat (map (run_seen solve)
     (grid_unique initial_conditions gamma_1_list gamma_2_list all_methods alpha_list)))"
    by (rule fold_merge_runs) (auto simp: body_seen_run)
  finally show ?thesis .
qed

lemma keys_merge_runs:
  "set (map key_of (merge_runs rs runs)) = set (map key_of rs) \<union> fst ` set runs"
proof (induction runs arbitrary: rs)
  case Nil
  then show ?case by simp
next
  case (Cons u runs)
  obtain k m t xy where u: "u = (k, m, t, xy)" by (cases u)
  have "set (map key_of (merge_record rs k m t xy)) = insert k (set (map key_of rs))"
    by (auto simp: keys_merge_record)
  then show ?case unfolding u merge_runs_Cons Cons.IH by auto
qed

lemma merge_runs_entry:
  assumes d: "distinct (map key_of rs)" and u: "(k, m, t, xy) \<in> set runs"
  shows "\<exists>r. filter (\<lambda>r. key_of r = k) (merge_runs rs runs) = [r] \<and> m \<in> dom (solutions r)"
proof -
  from u obtain as bs where runs: "runs = as @ (k, m, t, xy) # bs"
    by (auto simp: in_set_conv_decomp)
  define r1 where "r1 = (case find (\<lambda>r. key_of r = k) (merge_runs rs as) of
      None \<Rightarrow> fresh_record k t m xy | Some r \<Rightarrow> add_entry m xy r)"
  have f1: "find (\<lambda>r. key_of r = k) (merge_record (merge_runs rs as) k m t xy) = Some r1"
    unfolding r1_def by (rule find_merge_record_same)
  have s1: "m \<in> dom (solutions r1)" by (simp add: r1_def split: option.splits)
  from find_merge_runs_keeps[OF f1, of bs m]
  obtain r where r: "find (\<lambda>r. key_of r = k)
      (merge_runs (merge_record (merge_runs rs as) k m t xy) bs) = Some r"
    "dom (solutions r1) \<subseteq> dom (solutions r)" by blast
  have eq: "merge_runs rs runs = merge_runs (merge_record (merge_runs rs as) k m t xy) bs"
    unfolding runs by (simp add: merge_runs_append del: merge_record.simps)
  have "distinct (map key_of (merge_runs rs runs))" using d by (rule distinct_merge_runs)
  from filter_distinct_key[OF this, of k] r(1)
  have "filter (\<lambda>r. key_of r = k) (merge_runs rs runs) = [r]" unfolding eq by simp
  moreover have "m \<in> dom (solutions r)" using s1 r(2) by blast
  ultimately show ?thesis by blast
qed

lemma merge_runs_first_time:
  assumes d: "distinct (map key_of rs)" and new: "k \<notin> set (map key_of rs)"
    and first: "k \<notin> fst ` set as"
  shows "\<exists>r. filter (\<lambda>r. key_of r = k) (merge_runs rs (as @ (k, m, t, xy) # bs)) = [r] \<and>
           rec_t r = t"
proof -
  have "k \<notin> set (map key_of (merge_runs rs as))"
    using new first by (simp only: keys_merge_runs) simp
  then have none: "find (\<lambda>r. key_of r = k) (merge_runs rs as) = None"
    by (auto simp: find_None_iff)
  have f1: "find (\<lambda>r. key_of r = k) (merge_record (merge_runs rs as) k m t xy) =
      Some (fresh_record k t m xy)"
    by (simp add: find_merge_record_same none del: merge_record.simps)
  from find_merge_runs_keeps[OF f1, of bs m]
  obtain r where r: "find (\<lambda>r. key_of r = k)
      (merge_runs (merge_record (merge_runs rs as) k m t xy) bs) = Some r"
    "rec_t r = rec_t (fresh_record k t m xy)" by blast
  have eq: "merge_runs rs (as @ (k, m, t, xy) # bs) =
      merge_runs (merge_record (merge_runs rs as) k m t xy) bs"
    by (simp add: merge_runs_append del: merge_record.simps)
  have "distinct (map key_of (merge_runs rs (as @ (k, m, t, xy) # bs)))"
    using d by (rule distinct_merge_runs)
  from filter_distinct_key[OF this, of k] r(1)
  have "filter (\<lambda>r. key_of r = k) (merge_runs rs (as @ (k, m, t, xy) # bs)) = [r]"
    unfolding eq by simp
  with r(2) show ?thesis by simp
qed

lemma merge_runs_two_entries:
  assumes "distinct (map key_of rs)" "(k, m1, t1, xy1) \<in> set runs" "(k, m2, t2, xy2) \<in> set runs"
  shows "\<exists>r. filter (\<lambda>r. key_of r = k) (merge_runs rs runs) = [r] \<and>
           m1 \<in> dom (solutions r) \<and> m2 \<in> dom (solutions r)"
proof -
  from merge_runs_entry[OF assms(1,2)] obtain r where
    r: "filter (\<lambda>r. key_of r = k) (merge_runs rs runs) = [r]" "m1 \<in> dom (solutions r)" by blast
  from merge_runs_entry[OF assms(1,3)] obtain r' where
    r': "filter (\<lambda>r. key_of r = k) (merge_runs rs runs) = [r']" "m2 \<in> dom (solutions r')" by blast
  from r(1) r'(1) have "r' = r" by simp
  with r r' show ?thesis by blast
qed

text \<open>The runs a whole sweep hands to the merge, in the order of its loops.\<close>

definition runs_merge ::
  "solver \<Rightarrow> (real \<times> real) list \<Rightarrow> real list \<Rightarrow> real list \<Rightarrow> real list \<Rightarrow> method_name list \<Rightarrow>
     real \<Rightarrow> run list" where
  "runs_merge solve initial_conditions gamma_1_list gamma_2_list alpha_list all_methods delta =
     concat (map (run_merge solve delta)
       (grid_merge initial_conditions gamma_1_list gamma_2_list alpha_list all_methods))"

definition runs_seen ::
  "solver \<Rightarrow> (real \<times> real) list \<Rightarrow> real list \<Rightarrow> real list \<Rightarrow> method_name list \<Rightarrow> real list \<Rightarrow>
     run list" where
  "runs_seen solve initial_conditions gamma_1_list gamma_2_list all_methods alpha_list =
     concat (map (run_seen solve)
       (grid_unique initial_conditions gamma_1_list gamma_2_list all_methods alpha_list))"

lemma in_grid_merge:
  "(x0, y0, gamma1, gamma2, alpha, m) \<in>
     set (grid_merge initial_conditions gamma_1_list gamma_2_list alpha_list all_methods) \<longleftrightarrow>
   (x0, y0) \<in> set initial_conditions \<and> gamma1 \<in> set gamma_1_list \<and> gamma2 \<in> set gamma_2_list \<and>
   alpha \<in> set alpha_list \<and> m \<in> set all_methods"
  unfolding grid_merge_def by (simp add: image_iff)

lemma in_grid_unique:
  "(x0, y0, gamma1, gamma2, m, alpha) \<in>
     set (grid_unique initial_conditions gamma_1_list gamma_2_list all_methods alpha_list) \<longleftrightarrow>
   (x0, y0) \<in> set initial_conditions \<and> gamma1 \<in> set gamma_1_list \<and> gamma2 \<in> set gamma_2_list \<and>
   m \<in> set all_methods \<and> alpha \<in> set alpha_list"
  unfolding grid_unique_def by (simp add: image_iff)

lemma run_merge_shape:
  assumes "run_merge solve delta (x0, y0, gamma1, gamma2, alpha, m) \<noteq> []"
  shows "\<exists>t xy. run_merge solve delta (x0, y0, gamma1, gamma2, alpha, m) =
           [((x0, y0, gamma1, gamma2, alpha), m, t, xy)]"
  using assms by (auto simp: run_merge_def split: sum.splits if_splits)

lemma run_seen_shape:
  assumes "run_seen solve (x0, y0, gamma1, gamma2, m, alpha) \<noteq> []"
  shows "\<exists>t xy. run_seen solve (x0, y0, gamma1, gamma2, m, alpha) =
           [((x0, y0, gamma1, gamma2, alpha), m, t, xy)]"
  using assms by (auto simp: run_seen_def split: sum.splits if_splits)

lemma in_runs_merge:
  assumes "(x0, y0) \<in> set initial_conditions" "gamma1 \<in> set gamma_1_list"
    "gamma2 \<in> set gamma_2_list" "alpha \<in> set alpha_list" "m \<in> set all_methods"
    "run_merge solve delta (x0, y0, gamma1, gamma2, alpha, m) \<noteq> []"
  shows "\<exists>t xy. ((x0, y0, gamma1, gamma2, alpha), m, t, xy) \<in>
     set (runs_merge solve initial_conditions gamma_1_list gamma_2_list alpha_list all_methods delta)"
proof -
  from run_merge_shape[OF assms(6)] obtain t xy where
    r: "run_merge solve delta (x0, y0, gamma1, gamma2, alpha, m) =
          [((x0, y0, gamma1, gamma2, alpha), m, t, xy)]" by blast
  have g: "(x0, y0, gamma1, gamma2, alpha, m) \<in>
     set (grid_merge initial_conditions gamma_1_list gamma_2_list alpha_list all_methods)"
    using assms(1-5) by (simp add: in_grid_merge)
  have "((x0, y0, gamma1, gamma2, alpha), m, t, xy) \<in>
     set (runs_merge solve initial_conditions gamma_1_list gamma_2_list alpha_list all_methods delta)"
    unfolding runs_merge_def set_concat set_map
    by (rule UN_I[OF imageI[OF g]]) (simp add: r)
  then show ?thesis by blast
qed

lemma in_runs_seen:
  assumes "(x0, y0) \<in> set initial_conditions" "gamma1 \<in> set gamma_1_list"
    "gamma2 \<in> set gamma_2_list" "m \<in> set all_methods" "alpha \<in> set alpha_list"
    "run_seen solve (x0, y0, gamma1, gamma2, m, alpha) \<noteq> []"
  shows "\<exists>t xy. ((x0, y0, gamma1, gamma2, alpha), m, t, xy) \<in>
     set (runs_seen solve initial_conditions gamma_1_list gamma_2_list all_methods alpha_list)"
proof -
  from run_seen_shape[OF assms(6)] obtain t xy where
    r: "run_seen solve (x0, y0, gamma1, gamma2, m, alpha) =
          [((x0, y0, gamma1, gamma2, alpha), m, t, xy)]" by blast
  have g: "(x0, y0, gamma1, gamma2, m, alpha) \<in>
     set (grid_unique initial_conditions gamma_1_list gamma_2_list all_methods alpha_list)"
    using assms(1-5) by (simp add: in_grid_unique)
  have "((x0, y0, gamma1, gamma2, alpha), m, t, xy) \<in>
     set (runs_seen solve initial_conditions gamma_1_list gamma_2_list all_methods alpha_list)"
    unfolding runs_seen_def set_concat set_map
    by (rule UN_I[OF imageI[OF g]]) (simp add: r)
  then show ?thesis by blast
qed

lemma sweep_merge_two_methods:
  assumes "distinct (map key_of (records st))"
    "(x0, y0) \<in> set initial_conditions" "gamma1 \<in> set gamma_1_list"
    "gamma2 \<in> set gamma_2_list" "alpha \<in> set alpha_list"
    "ma \<in> set all_methods" "mb \<in> set all_methods"
    "run_merge solve delta (x0, y0, gamma1, gamma2, alpha, ma) \<noteq> []"
    "run_merge solve delta (x0, y0, gamma1, gamma2, alpha, mb) \<noteq> []"
  shows "\<exists>r. filter (\<lambda>r. key_of r = (x0, y0, gamma1, gamma2, alpha))
            (records (sweep_merge solve initial_conditions gamma_1_list gamma_2_list alpha_list
               all_methods delta st)) = [r] \<and>
          ma \<in> dom (solutions r) \<and> mb \<in> dom (solutions r)"
proof -
  from in_runs_merge[OF assms(2-6) assms(8)] obtain ta xya where
    a: "((x0, y0, gamma1, gamma2, alpha), ma, ta, xya) \<in>
     set (runs_merge solve initial_conditions gamma_1_list gamma_2_list alpha_list all_methods delta)"
    by blast
  from in_runs_merge[OF assms(2-5) assms(7) assms(9)] obtain tb xyb where
    b: "((x0, y0, gamma1, gamma2, alpha), mb, tb, xyb) \<in>
     set (runs_merge solve initial_conditions gamma_1_list gamma_2_list alpha_list all_methods delta)"
    by blast
  from merge_runs_two_entries[OF assms(1) a b] show ?thesis
    by (simp only: sweep_merge_records runs_merge_def)
qed

lemma sweep_seen_two_methods:
  assumes "distinct (map key_of (records st))"
    "(x0, y0) \<in> set initial_conditions" "gamma1 \<in> set gamma_1_list"
    "gamma2 \<in> set gamma_2_list" "alpha \<in> set alpha_list"
    "ma \<in> set all_methods" "mb \<in> set all_methods"
    "run_seen solve (x0, y0, gamma1, gamma2, ma, alpha) \<noteq> []"
    "run_seen solve (x0, y0, gamma1, gamma2, mb, alpha) \<noteq> []"
  shows "\<exists>r. filter (\<lambda>r. key_of r = (x0, y0, gamma1, gamma2, alpha))
            (records (sweep_seen solve initial_conditions gamma_1_list gamma_2_list all_methods
               alpha_list st)) = [r] \<and>
          ma \<in> dom (solutions r) \<and> mb \<in> dom (solutions r)"
proof -
  from in_runs_seen[OF assms(2-4) assms(6) assms(5) assms(8)] obtain ta xya where
    a: "((x0, y0, gamma1, gamma2, alpha), ma, ta, xya) \<in>
     set (runs_seen solve initial_conditions gamma_1_list gamma_2_list all_methods alpha_list)"
    by blast
  from in_runs_seen[OF assms(2-4) assms(7) assms(5) assms(9)] obtain tb xyb where
    b: "((x0, y0, gamma1, gamma2, alpha), mb, tb, xyb) \<in>
     set (runs_seen solve initial_conditions gamma_1_list gamma_2_list all_methods alpha_list)"
    by blast
  from merge_runs_two_entries[OF assms(1) a b] show ?thesis
    by (simp only: sweep_seen_records runs_seen_def)
qed

lemma sweep_merge_first_time:
  assumes "distinct (map key_of (records st))" "k \<notin> set (map key_of (records st))"
    "runs_merge solve initial_conditions gamma_1_list gamma_2_list alpha_list all_methods delta =
       earlier @ (k, m, t, xy) # later"
    "k \<notin> fst ` set earlier"
  shows "\<exists>r. filter (\<lambda>r. key_of r = k)
            (records (sweep_merge solve initial_conditions gamma_1_list gamma_2_list alpha_list
               all_methods delta st)) = [r] \<and> rec_t r = t"
  using merge_runs_first_time[OF assms(1,2,4), of m t xy later] assms(3)
  by (simp only: sweep_merge_records runs_merge_def)

lemma sweep_seen_first_time:
  assumes "distinct (map key_of (records st))" "k \<notin> set (map key_of (records st))"
    "runs_seen solve initial_conditions gamma_1_list gamma_2_list all_methods alpha_list =
       earlier @ (k, m, t, xy) # later"
    "k \<notin> fst ` set earlier"
  shows "\<exists>r. filter (\<lambda>r. key_of r = k)
            (records (sweep_seen solve initial_conditions gamma_1_list gamma_2_list all_methods
               alpha_list st)) = [r] \<and> rec_t r = t"
  using merge_runs_first_time[OF assms(1,2,4), of m t xy later] assms(3)
  by (simp only: sweep_seen_records runs_seen_def)

text \<open>A solver whose trajectory depends on the method: two samples with DOP853, three
  samples, the first two equal, with any other method.\<close>

definition by_method :: solver where
  "by_method m alpha gamma1 gamma2 x0 y0 =
     (if m = ''DOP853''
      then Inr \<lparr>success = True, sol_t = [0, 1], sol_y0 = [x0, x0 + 1], sol_y1 = [y0, y0]\<rparr>
      else Inr \<lparr>success = True, sol_t = [0, 1, 2], sol_y0 = [x0, x0, x0 + 1],
                 sol_y1 = [y0, y0, y0]\<rparr>)"

section \<open>Facts on the right-hand side\<close>

lemma clip_range: "lo \<le> hi \<Longrightarrow> lo \<le> clip a lo hi \<and> clip a lo hi \<le> hi"
  by (simp add: clip_def)

lemma clip_id: "lo \<le> a \<Longrightarrow> a \<le> hi \<Longrightarrow> clip a lo hi = a"
  by (simp add: clip_def)

lemma clamped_power_range:
  "exp (- 700) \<le> clamped_power v inv_alpha \<and> clamped_power v inv_alpha \<le> exp 700"
  using clip_range[of "- 700" 700 "ln v * inv_alpha"] by (simp add: clamped_power_def)

lemma clamped_power_pos: "0 < clamped_power v inv_alpha"
  by (simp add: clamped_power_def)

lemma exp_64th: "exp (1 / 64) \<le> (4161 / 4096 :: real)"
  using exp_bound[of "1 / 64"] by (simp add: power2_eq_square)

lemma exp_1_le: "exp 1 \<le> (274 / 100 :: real)"
proof -
  have "exp (1 :: real) = exp (of_nat 64 * (1 / 64))" by simp
  also have "\<dots> = exp (1 / 64 :: real) ^ 64" by (rule exp_of_nat_mult)
  also have "\<dots> \<le> (4161 / 4096) ^ 64" by (intro power_mono exp_64th) simp
  also have "\<dots> \<le> (274 / 100 :: real)" by (simp add: power_divide)
  finally show ?thesis .
qed

lemma exp_700_le: "exp 700 \<le> (2 ^ 1022 :: real)"
proof -
  have "exp (700 :: real) = exp (of_nat 700 * 1)" by simp
  also have "\<dots> = exp (1 :: real) ^ 700" by (rule exp_of_nat_mult)
  also have "\<dots> \<le> (274 / 100) ^ 700" by (intro power_mono exp_1_le) simp
  also have "(274 / 100 :: real) ^ 700 = ((274 / 100) ^ 100) ^ 7" by (simp add: power_mult [symmetric])
  also have "\<dots> \<le> ((2 :: real) ^ 146) ^ 7" by (intro power_mono) (simp_all add: power_divide)
  also have "\<dots> = 2 ^ 1022" by (simp add: power_mult [symmetric])
  finally show ?thesis .
qed

lemma exp_700_double: "exp 700 \<le> double_max"
proof -
  have "(2 ^ 1022 :: real) \<le> double_max" by (simp add: double_max_def)
  with exp_700_le show ?thesis by linarith
qed

lemma quotient_range:
  fixes a b :: real
  assumes "0 < a" "0 < b"
  shows "0 < a / (b + a) \<and> a / (b + a) < 1"
  using assms by (simp add: field_simps)

lemma ln_abs_le:
  fixes v :: real
  assumes "1 / 10 ^ 20 \<le> v" "v \<le> 10 ^ 20"
  shows "\<bar>ln v\<bar> \<le> 10 ^ 20"
proof -
  have pos: "0 < v" using assms(1) by (rule less_le_trans[rotated]) simp
  have up: "ln v \<le> 10 ^ 20" using ln_le_minus_one[OF pos] assms(2) by linarith
  have ipos: "0 < 1 / v" using pos by simp
  have "1 / v \<le> 10 ^ 20" using assms(1) pos by (simp add: field_simps)
  with ln_le_minus_one[OF ipos] have "ln (1 / v) \<le> 10 ^ 20" by linarith
  then have "- ln v \<le> 10 ^ 20" using pos by (simp add: ln_div)
  with up show ?thesis by linarith
qed

lemma double_max_bounds:
  "(10 ^ 34 :: real) \<le> double_max" "(10 ^ 308 + 1 :: real) \<le> double_max"
  "(2 ^ 1023 :: real) \<le> double_max" "(10 ^ 20 :: real) \<le> double_max"
  "double_max < (10 ^ 309 :: real)"
  by (simp_all add: double_max_def)

lemma product_le:
  fixes a b :: real
  assumes "\<bar>a\<bar> \<le> A" "\<bar>b\<bar> \<le> B"
  shows "\<bar>a * b\<bar> \<le> A * B"
  unfolding abs_mult using assms by (intro mult_mono) simp_all

lemma representableI: "- B \<le> v \<Longrightarrow> v \<le> B \<Longrightarrow> B \<le> double_max \<Longrightarrow> representable v"
  unfolding representable_def by linarith

lemma one_le_double_max: "1 \<le> double_max"
  by (simp add: double_max_def)

lemma coordinate_bounds:
  fixes v alpha gamma :: real
  assumes v: "1 / 10 ^ 20 \<le> v" "v \<le> 10 ^ 20"
    and a: "1 / 10 ^ 14 \<le> alpha" "alpha \<le> 1"
    and g: "\<bar>gamma\<bar> \<le> 10 ^ 288"
  defines "va \<equiv> clamped_power v (1 / alpha)"
  defines "ba \<equiv> clamped_power model_b (1 / alpha)"
  shows "representable (1 / alpha)" "representable (ln v)" "representable (ln v * (1 / alpha))"
    "representable va" "representable (model_K * va)" "representable (ba + va)" "0 < ba + va"
    "0 < model_K * va / (ba + va)" "model_K * va / (ba + va) < 1"
    "representable (gamma * v)" "representable (model_K * va / (ba + va) - gamma * v)"
proof -
  have apos: "0 < alpha" using a(1) by (rule less_le_trans[rotated]) simp
  have vpos: "0 < v" using v(1) by (rule less_le_trans[rotated]) simp
  have inv: "\<bar>1 / alpha\<bar> \<le> 10 ^ 14" using a(1) apos by (simp add: field_simps)
  have lnv: "\<bar>ln v\<bar> \<le> 10 ^ 20" using v by (rule ln_abs_le)
  have prod: "\<bar>ln v * (1 / alpha)\<bar> \<le> 10 ^ 20 * 10 ^ 14" using lnv inv by (rule product_le)
  have va: "0 < va" "va \<le> exp 700" "0 < ba" "ba \<le> exp 700"
    using clamped_power_range clamped_power_pos by (simp_all add: va_def ba_def)
  have q: "0 < va / (ba + va) \<and> va / (ba + va) < 1" using va(1,3) by (rule quotient_range)
  have "\<bar>v\<bar> \<le> 10 ^ 20" using v vpos by simp
  with g have gv: "\<bar>gamma * v\<bar> \<le> 10 ^ 288 * 10 ^ 20" by (rule product_le)
  show "representable (1 / alpha)"
    using inv double_max_bounds(1) by (simp add: representable_def)
  show "representable (ln v)"
    using lnv double_max_bounds(4) by (simp add: representable_def)
  show "representable (ln v * (1 / alpha))"
    using prod double_max_bounds(1) by (simp add: representable_def)
  show "representable va"
    using va(1,2) exp_700_double by (simp add: representable_def)
  show "representable (model_K * va)"
    using va(1,2) exp_700_double by (simp add: representable_def model_K_def)
  show "representable (ba + va)"
    using va exp_700_le double_max_bounds(3) by (simp add: representable_def)
  show "0 < ba + va" using va(1,3) by simp
  show "0 < model_K * va / (ba + va)" using q by (simp add: model_K_def)
  show "model_K * va / (ba + va) < 1" using q by (simp add: model_K_def)
  show "representable (gamma * v)"
  proof -
    have "(10 ^ 288 * 10 ^ 20 :: real) = 10 ^ 308" by (simp only: power_add [symmetric]) simp
    with gv have "\<bar>gamma * v\<bar> \<le> 10 ^ 308" by linarith
    with double_max_bounds(2) show ?thesis unfolding representable_def by linarith
  qed
  have G: "(10 ^ 288 * 10 ^ 20 :: real) = 10 ^ 308" by (simp only: power_add [symmetric]) simp
  have K: "model_K * va / (ba + va) = va / (ba + va)" by (simp add: model_K_def)
  from gv have gv': "- (10 ^ 308) \<le> gamma * v \<and> gamma * v \<le> 10 ^ 308"
    unfolding G by linarith
  show "representable (model_K * va / (ba + va) - gamma * v)"
    unfolding K
  proof (rule representableI)
    show "- (10 ^ 308 + 1) \<le> va / (ba + va) - gamma * v" using q gv' by linarith
    show "va / (ba + va) - gamma * v \<le> 10 ^ 308 + 1" using q gv' by linarith
    show "(10 ^ 308 + 1 :: real) \<le> double_max" by (rule double_max_bounds(2))
  qed
qed

lemma get_rhs_value:
  assumes "1 / 10 ^ 20 \<le> x" "x \<le> 10 ^ 20" "1 / 10 ^ 20 \<le> y" "y \<le> 10 ^ 20" "alpha \<noteq> 0"
  shows "get_rhs alpha gamma1 gamma2 t (x, y) =
     Inr (model_K * clamped_power x (1 / alpha) /
            (clamped_power model_b (1 / alpha) + clamped_power x (1 / alpha)) - gamma1 * x,
          model_K * clamped_power y (1 / alpha) /
            (clamped_power model_b (1 / alpha) + clamped_power y (1 / alpha)) - gamma2 * y)"
  using assms by (simp add: get_rhs_def Let_def clip_id)

lemma clamped_power_one: "clamped_power 1 inv_alpha = 1"
  by (simp add: clamped_power_def clip_def)

lemma clamped_power_big: "clamped_power (10 ^ 20) 1 = 10 ^ 20"
proof -
  have "ln (10 :: real) \<le> 10 - 1" by (rule ln_le_minus_one) simp
  moreover have "0 \<le> ln (10 :: real)" by simp
  moreover have "ln ((10 :: real) ^ 20) = real 20 * ln 10" by (rule ln_realpow)
  moreover have "real 20 = 20" by (simp only: of_nat_numeral)
  ultimately have "- 700 \<le> ln ((10 :: real) ^ 20) \<and> ln ((10 :: real) ^ 20) \<le> 700" by linarith
  then have "clip (ln ((10 :: real) ^ 20) * 1) (- 700) 700 = ln (10 ^ 20)"
    by (simp add: clip_id)
  then show ?thesis unfolding clamped_power_def by simp
qed

section \<open>Claims on the compression\<close>

text \<open>
  C1. For a trajectory with at least one sample (\<open>t\<close>, \<open>x\<close>, \<open>y\<close> of the same length
  \<open>N \<ge> 1\<close>) and every threshold \<open>delta\<close>, in particular every positive one,
  \<open>compress_trajectory\<close> raises nothing and returns an index list that is not empty, is
  strictly increasing, begins with \<open>0\<close> and ends with \<open>N - 1\<close>.
\<close>

theorem compress_index_set:
  assumes "length x = length t" "length y = length t" "1 \<le> length t"
  shows "\<exists>indices. compress_trajectory t x y delta = Inr indices \<and> indices \<noteq> [] \<and>
           sorted_wrt (<) indices \<and> hd indices = 0 \<and> last indices = int (length t) - 1"
proof -
  have n: "0 < int (length t)" using assms(3) by linarith
  from compress_loops_spec[OF exceeds_answers[OF assms(1,2)] n]
  obtain r where r: "chain (\<lambda>i j. euclid x y (nat i) (nat j) > delta) (int (length t)) 0 r"
    "compress_trajectory t x y delta =
       Inr (if last (0 # r) \<noteq> int (length t) - 1 then (0 # r) @ [int (length t) - 1] else 0 # r)"
    unfolding compress_trajectory_def by blast
  from index_set_shape[OF r(1) n] r(2) show ?thesis by simp
qed

theorem compress_index_set_witness:
  "compress_trajectory [0, 1, 2, 3] [0, 0, 2, 2] [0, 1, 1, 1] 1 = Inr [0, 2, 3] \<and>
   (\<exists>indices. compress_trajectory [0, 1, 2, 3] [0, 0, 2, 2] [0, 1, 1, 1] 1 = Inr indices \<and>
      indices \<noteq> [] \<and> sorted_wrt (<) indices \<and> hd indices = 0 \<and> last indices = 3)"
  using compress_index_set [of "[0, 0, 2, 2]" "[0, 1, 2, 3]" "[0, 1, 1, 1]" 1]
  by (simp add: compress_eval)

text \<open>
  C2. For a trajectory and every threshold \<open>delta\<close>: let \<open>scanned\<close> be the list the two
  loops build; the returned list is \<open>scanned\<close>, followed by \<open>N - 1\<close> when that is not
  already its last element. For every pair of consecutive indices \<open>(i, j)\<close> of \<open>scanned\<close>,
  that is every consecutive pair of the result except the pair made by the unconditional
  append, the Euclidean distance between the points \<open>i\<close> and \<open>j\<close> exceeds \<open>delta\<close>, and
  every point strictly between them is within \<open>delta\<close> of the point \<open>i\<close>.
\<close>

theorem compress_retained_pairs:
  assumes "length x = length t" "length y = length t"
  shows "\<exists>scanned. outer (exceeds x y delta) (int (length t)) 0 [0] = Inr scanned \<and>
           compress_trajectory t x y delta =
             Inr (if last scanned \<noteq> int (length t) - 1
                  then scanned @ [int (length t) - 1] else scanned) \<and>
           (\<forall>p. p + 1 < length scanned \<longrightarrow>
              euclid x y (nat (scanned ! p)) (nat (scanned ! (p + 1))) > delta \<and>
              (\<forall>k. scanned ! p < k \<and> k < scanned ! (p + 1) \<longrightarrow>
                 euclid x y (nat (scanned ! p)) (nat k) \<le> delta))"
proof (cases "0 < int (length t)")
  case False
  then have "outer (exceeds x y delta) (int (length t)) 0 [0] = Inr [0]"
    by (intro outer_empty) simp
  then show ?thesis by (simp add: compress_trajectory_def compress_loops_def)
next
  case True
  from compress_loops_spec[OF exceeds_answers[OF assms(1,2)] True]
  obtain r where r: "outer (exceeds x y delta) (int (length t)) 0 [0] = Inr (0 # r)"
    "chain (\<lambda>i j. euclid x y (nat i) (nat j) > delta) (int (length t)) 0 r"
    "compress_trajectory t x y delta =
       Inr (if last (0 # r) \<noteq> int (length t) - 1 then (0 # r) @ [int (length t) - 1] else 0 # r)"
    unfolding compress_trajectory_def by blast
  have "\<forall>p. p + 1 < length (0 # r) \<longrightarrow>
              euclid x y (nat ((0 # r) ! p)) (nat ((0 # r) ! (p + 1))) > delta \<and>
              (\<forall>k. (0 # r) ! p < k \<and> k < (0 # r) ! (p + 1) \<longrightarrow>
                 euclid x y (nat ((0 # r) ! p)) (nat k) \<le> delta)"
  proof (intro allI impI)
    fix p assume "p + 1 < length (0 # r)"
    from chain_pairs[OF r(2) this]
    show "euclid x y (nat ((0 # r) ! p)) (nat ((0 # r) ! (p + 1))) > delta \<and>
              (\<forall>k. (0 # r) ! p < k \<and> k < (0 # r) ! (p + 1) \<longrightarrow>
                 euclid x y (nat ((0 # r) ! p)) (nat k) \<le> delta)"
      by (simp add: not_less)
  qed
  with r(1,3) show ?thesis by blast
qed

theorem compress_retained_pairs_witness:
  "outer (exceeds [0, 0, 2, 2] [0, 1, 1, 1] 1) 4 0 [0] = Inr [0, 2] \<and>
   compress_trajectory [0, 1, 2, 3] [0, 0, 2, 2] [0, 1, 1, 1] 1 = Inr [0, 2, 3] \<and>
   euclid [0, 0, 2, 2] [0, 1, 1, 1] 0 2 > 1 \<and> euclid [0, 0, 2, 2] [0, 1, 1, 1] 0 1 \<le> 1"
  using compress_retained_pairs [of "[0, 0, 2, 2]" "[0, 1, 2, 3]" "[0, 1, 1, 1]" 1]
  by (simp add: compress_eval euclid_def)

text \<open>
  C6. For a trajectory with at least one sample and every threshold \<open>delta\<close>: re-indexing
  \<open>x\<close>, \<open>y\<close> and \<open>t\<close> by the returned index list raises nothing, and compressing the
  re-indexed arrays with the same \<open>delta\<close> returns every position \<open>0, 1, \<dots>, M - 1\<close> of
  them: no point is removed the second time.
\<close>

theorem compress_idempotent:
  assumes "length x = length t" "length y = length t" "1 \<le> length t"
  shows "\<exists>indices xf yf tf. compress_trajectory t x y delta = Inr indices \<and>
           take_indices x indices = Inr xf \<and> take_indices y indices = Inr yf \<and>
           take_indices t indices = Inr tf \<and>
           compress_trajectory tf xf yf delta = Inr (map int [0..<length indices])"
proof -
  define n where "n = int (length t)"
  define f where "f = (\<lambda>i j. euclid x y (nat i) (nat j) > delta)"
  have n: "0 < n" using assms(3) unfolding n_def by linarith
  from compress_loops_spec[OF exceeds_answers[OF assms(1,2)], of delta] n
  obtain r where r: "chain f n 0 r"
    "compress_trajectory t x y delta =
       Inr (if last (0 # r) \<noteq> n - 1 then (0 # r) @ [n - 1] else 0 # r)"
    unfolding compress_trajectory_def n_def f_def by blast
  define idx where "idx = (if last (0 # r) \<noteq> n - 1 then (0 # r) @ [n - 1] else 0 # r)"
  define xf where "xf = map (\<lambda>k. x ! nat k) idx"
  define yf where "yf = map (\<lambda>k. y ! nat k) idx"
  define tf where "tf = map (\<lambda>k. t ! nat k) idx"
  define M where "M = length idx"
  define f' where "f' = (\<lambda>i j. euclid xf yf (nat i) (nat j) > delta)"
  have b: "\<forall>k\<in>set idx. 0 \<le> k \<and> k < n"
    unfolding idx_def using r(1) n by (rule index_set_bounds)
  have tx: "take_indices x idx = Inr xf"
    unfolding xf_def using b assms(1) by (intro take_indices_in_range) (simp add: n_def)
  have ty: "take_indices y idx = Inr yf"
    unfolding yf_def using b assms(2) by (intro take_indices_in_range) (simp add: n_def)
  have tt: "take_indices t idx = Inr tf"
    unfolding tf_def using b by (intro take_indices_in_range) (simp add: n_def)
  have len: "length xf = length tf" "length yf = length tf" "length tf = M"
    by (simp_all add: xf_def yf_def tf_def M_def)
  have M: "0 < int (length tf)" by (simp add: tf_def idx_def)
  from compress_loops_spec[OF exceeds_answers[OF len(1,2)] M, of delta]
  obtain r' where r': "chain f' (int M) 0 r'"
    "compress_trajectory tf xf yf delta =
       Inr (if last (0 # r') \<noteq> int M - 1 then (0 # r') @ [int M - 1] else 0 # r')"
    unfolding compress_trajectory_def f'_def len(3) by blast
  have ff: "\<forall>a b. a < M \<and> b < M \<longrightarrow> f' (int a) (int b) = f (idx ! a) (idx ! b)"
    by (simp add: f'_def f_def euclid_def xf_def yf_def M_def)
  have pre: "\<forall>q\<le>length r. idx ! (0 + q) = (0 # r) ! q"
  proof (intro allI impI)
    fix q assume "q \<le> length r"
    then have "q < length (0 # r)" by simp
    then have "((0 # r) @ [n - 1]) ! q = (0 # r) ! q" by (simp only: nth_append if_True)
    then show "idx ! (0 + q) = (0 # r) ! q" by (simp add: idx_def)
  qed
  have l: "last (0 # r) < n" using r(1) n by (rule chain_last)
  have shape: "M = 0 + length r + 1 \<or>
      (M = 0 + length r + 2 \<and> idx ! (0 + length r + 1) = n - 1 \<and> last (0 # r) < n - 1)"
  proof (cases "last (0 # r) \<noteq> n - 1")
    case True
    with l have "last (0 # r) < n - 1" by simp
    moreover have "((0 # r) @ [n - 1]) ! (length r + 1) = n - 1"
      by (simp add: nth_append)
    ultimately show ?thesis using True by (simp add: M_def idx_def)
  next
    case False
    then show ?thesis by (simp add: M_def idx_def)
  qed
  from chain_reindexed[OF ff r(1) pre shape]
  have "chain f' (int M) 0 (map int [1 ..< 1 + length r])" by simp
  with r'(1) have r'_eq: "r' = map int [1 ..< 1 + length r]" by (rule chain_unique)
  have c: "last (0 # r') = int (length r)" by (simp only: r'_eq last_zero_upt)
  have "(if last (0 # r') \<noteq> int M - 1 then (0 # r') @ [int M - 1] else 0 # r') = map int [0..<M]"
  proof (cases "M = length r + 1")
    case True
    then have "int M - 1 = int (length r)" by simp
    with c have "(if last (0 # r') \<noteq> int M - 1 then (0 # r') @ [int M - 1] else 0 # r') = 0 # r'"
      by simp
    also have "0 # r' = map int [0..<Suc (length r)]" by (simp only: r'_eq upt_from_zero)
    also have "Suc (length r) = M" using True by simp
    finally show ?thesis .
  next
    case False
    with shape have M2: "M = Suc (Suc (length r))" by simp
    then have m: "int M - 1 = int (length r) + 1" by simp
    with c have "(if last (0 # r') \<noteq> int M - 1 then (0 # r') @ [int M - 1] else 0 # r') =
        (0 # r') @ [int (length r) + 1]"
      by simp
    also have "\<dots> = map int [0..<Suc (Suc (length r))]" by (simp only: r'_eq upt_snoc_int)
    also have "Suc (Suc (length r)) = M" using M2 by simp
    finally show ?thesis .
  qed
  with r'(2) have "compress_trajectory tf xf yf delta = Inr (map int [0..<length idx])"
    by (simp add: M_def)
  with r(2) tx ty tt show ?thesis unfolding idx_def[symmetric] by blast
qed

theorem compress_idempotent_witness:
  "compress_trajectory [0, 1, 2, 3] [0, 0, 2, 2] [0, 1, 1, 1] 1 = Inr [0, 2, 3] \<and>
   take_indices [0, 0, 2, 2 :: real] [0, 2, 3] = Inr [0, 2, 2] \<and>
   take_indices [0, 1, 1, 1 :: real] [0, 2, 3] = Inr [0, 1, 1] \<and>
   take_indices [0, 1, 2, 3 :: real] [0, 2, 3] = Inr [0, 2, 3] \<and>
   compress_trajectory [0, 2, 3] [0, 2, 2] [0, 1, 1] 1 = Inr [0, 1, 2]"
  using compress_idempotent [of "[0, 0, 2, 2]" "[0, 1, 2, 3]" "[0, 1, 1, 1]" 1]
  by (simp add: compress_eval)

text \<open>
  C9. For a trajectory with at least one sample and every threshold \<open>delta\<close>, every index
  in the returned list lies between \<open>0\<close> and \<open>len(t) - 1\<close>, and the re-indexing
  \<open>x[indices]\<close>, \<open>y[indices]\<close>, \<open>t[indices]\<close> raises no IndexError: it returns the
  elements at these positions.
\<close>

theorem compress_indices_in_bounds:
  assumes "length x = length t" "length y = length t" "1 \<le> length t"
  shows "\<exists>indices. compress_trajectory t x y delta = Inr indices \<and>
           (\<forall>k\<in>set indices. 0 \<le> k \<and> k \<le> int (length t) - 1) \<and>
           take_indices x indices = Inr (map (\<lambda>k. x ! nat k) indices) \<and>
           take_indices y indices = Inr (map (\<lambda>k. y ! nat k) indices) \<and>
           take_indices t indices = Inr (map (\<lambda>k. t ! nat k) indices)"
proof -
  have n: "0 < int (length t)" using assms(3) by linarith
  from compress_loops_spec[OF exceeds_answers[OF assms(1,2)] n]
  obtain r where r: "chain (\<lambda>i j. euclid x y (nat i) (nat j) > delta) (int (length t)) 0 r"
    "compress_trajectory t x y delta =
       Inr (if last (0 # r) \<noteq> int (length t) - 1 then (0 # r) @ [int (length t) - 1] else 0 # r)"
    unfolding compress_trajectory_def by blast
  define indices where
    "indices = (if last (0 # r) \<noteq> int (length t) - 1 then (0 # r) @ [int (length t) - 1] else 0 # r)"
  have b: "\<forall>k\<in>set indices. 0 \<le> k \<and> k < int (length t)"
    unfolding indices_def using r(1) n by (rule index_set_bounds)
  then have b': "\<forall>k\<in>set indices. 0 \<le> k \<and> k \<le> int (length t) - 1" by fastforce
  have "take_indices x indices = Inr (map (\<lambda>k. x ! nat k) indices)"
    using b assms(1) by (intro take_indices_in_range) simp
  moreover have "take_indices y indices = Inr (map (\<lambda>k. y ! nat k) indices)"
    using b assms(2) by (intro take_indices_in_range) simp
  moreover have "take_indices t indices = Inr (map (\<lambda>k. t ! nat k) indices)"
    using b by (intro take_indices_in_range) simp
  ultimately show ?thesis using r(2) b' unfolding indices_def[symmetric] by blast
qed

theorem compress_indices_in_bounds_witness:
  "compress_trajectory [0, 1, 2, 3, 4] [0, 3, 3, 3, 6] [0, 4, 4, 4, 8] 2 = Inr [0, 1, 4] \<and>
   take_indices [0, 3, 3, 3, 6 :: real] [0, 1, 4] = Inr [0, 3, 6] \<and>
   take_indices [0, 4, 4, 4, 8 :: real] [0, 1, 4] = Inr [0, 4, 8] \<and>
   take_indices [0, 1, 2, 3, 4 :: real] [0, 1, 4] = Inr [0, 1, 4]"
  using compress_indices_in_bounds [of "[0, 3, 3, 3, 6]" "[0, 1, 2, 3, 4]" "[0, 4, 4, 4, 8]" 2]
  by (simp add: compress_eval)

text \<open>
  C10. \<open>compress_trajectory\<close> terminates on every input: the function whose loops are taken
  as they are written, with no termination assumed, returns a value (an index list or a
  raised IndexError) for every \<open>t\<close>, \<open>x\<close>, \<open>y\<close> and every \<open>delta\<close>, positive or not, and
  it is the value of \<open>compress_trajectory\<close>. The same holds for the loops on an arbitrary
  test \<open>far\<close>, so termination does not depend on what the comparison \<open>dist > delta\<close>
  answers (on non-finite coordinates, for instance).
\<close>

theorem compress_trajectory_terminates:
  "compress_trajectory_while t x y delta = Some (compress_trajectory t x y delta) \<and>
   compress_while far n = Some (compress_loops far n)"
  by (simp add: compress_trajectory_while_def compress_trajectory_def compress_while_def
      compress_loops_def outer_while_returns split: sum.splits)

text \<open>
  C5, as stated, fails: on the trajectory \<open>x = [0, 6, 10, 2, 10, 2]\<close>, \<open>y = 0\<close> the threshold
  \<open>5\<close> retains three indices and the larger threshold \<open>7\<close> retains five. With the small
  threshold the scan stops on the point \<open>6\<close>, from which every later point is within
  \<open>5\<close>; with the large one it skips that point and then alternates between \<open>10\<close> and
  \<open>2\<close>.
\<close>

theorem compress_count_not_monotone:
  "compress_trajectory [0, 1, 2, 3, 4, 5] [0, 6, 10, 2, 10, 2] [0, 0, 0, 0, 0, 0] 5 = Inr [0, 1, 5] \<and>
   compress_trajectory [0, 1, 2, 3, 4, 5] [0, 6, 10, 2, 10, 2] [0, 0, 0, 0, 0, 0] 7 =
     Inr [0, 2, 3, 4, 5] \<and>
   (0 :: real) < 5 \<and> (5 :: real) < 7 \<and> length [0, 1, 5 :: int] < length [0, 2, 3, 4, 5 :: int]"
  by (simp add: compress_small_delta compress_large_delta)

text \<open>
  C5, amended. On a trajectory along which the distance to a later point never grows when
  the base point advances towards it (\<open>i \<le> i' < j\<close> implies
  \<open>dist(i', j) \<le> dist(i, j)\<close>; this holds when \<open>x\<close> and \<open>y\<close> are each monotone in the
  index), and for thresholds \<open>delta_a \<le> delta_b\<close>, the number of indices retained with
  \<open>delta_a\<close> is at least the number retained with \<open>delta_b\<close>.
\<close>

theorem compress_count_monotone:
  assumes "length x = length t" "length y = length t"
    and "delta_a \<le> delta_b"
    and "\<forall>i i' j. i \<le> i' \<and> i' < j \<and> j < length t \<longrightarrow> euclid x y i' j \<le> euclid x y i j"
  shows "\<exists>indices_a indices_b.
           compress_trajectory t x y delta_a = Inr indices_a \<and>
           compress_trajectory t x y delta_b = Inr indices_b \<and>
           length indices_b \<le> length indices_a"
proof (cases "0 < int (length t)")
  case False
  then have "int (length t) = 0" by simp
  then show ?thesis by (simp add: compress_trajectory_def compress_empty)
next
  case True
  define n where "n = int (length t)"
  define fa where "fa = (\<lambda>i j. euclid x y (nat i) (nat j) > delta_a)"
  define fb where "fb = (\<lambda>i j. euclid x y (nat i) (nat j) > delta_b)"
  from True have n: "0 < n" by (simp add: n_def)
  from compress_loops_spec[OF exceeds_answers[OF assms(1,2)], of delta_a] n
  obtain ra where ra: "chain fa n 0 ra"
    "compress_trajectory t x y delta_a =
       Inr (if last (0 # ra) \<noteq> n - 1 then (0 # ra) @ [n - 1] else 0 # ra)"
    unfolding compress_trajectory_def n_def fa_def by blast
  from compress_loops_spec[OF exceeds_answers[OF assms(1,2)], of delta_b] n
  obtain rb where rb: "chain fb n 0 rb"
    "compress_trajectory t x y delta_b =
       Inr (if last (0 # rb) \<noteq> n - 1 then (0 # rb) @ [n - 1] else 0 # rb)"
    unfolding compress_trajectory_def n_def fb_def by blast
  have mono: "\<forall>i i' j. 0 \<le> i \<and> i \<le> i' \<and> i' < j \<and> j < n \<and> fb i' j \<longrightarrow> fa i j"
  proof (intro allI impI)
    fix i i' j :: int
    assume h: "0 \<le> i \<and> i \<le> i' \<and> i' < j \<and> j < n \<and> fb i' j"
    then have "nat i \<le> nat i' \<and> nat i' < nat j \<and> nat j < length t" by (auto simp: n_def)
    with assms(4) have "euclid x y (nat i') (nat j) \<le> euclid x y (nat i) (nat j)" by blast
    with h assms(3) show "fa i j" by (simp add: fa_def fb_def)
  qed
  from chain_count_mono[OF mono ra(1) rb(1)]
  have c: "length rb \<le> length ra" "length ra = length rb \<longrightarrow> last (0 # ra) \<le> last (0 # rb)"
    by simp_all
  have lb: "last (0 # rb) < n" using rb(1) n by (rule chain_last)
  define indices_a where "indices_a = (if last (0 # ra) \<noteq> n - 1 then (0 # ra) @ [n - 1] else 0 # ra)"
  define indices_b where "indices_b = (if last (0 # rb) \<noteq> n - 1 then (0 # rb) @ [n - 1] else 0 # rb)"
  have "length indices_b \<le> length indices_a"
  proof (cases "length ra = length rb")
    case True
    with c(2) have "last (0 # ra) \<le> last (0 # rb)" by simp
    with lb have "last (0 # rb) \<noteq> n - 1 \<longrightarrow> last (0 # ra) \<noteq> n - 1" by linarith
    with True show ?thesis by (simp add: indices_a_def indices_b_def del: last.simps)
  next
    case False
    with c(1) have "length rb < length ra" by simp
    then show ?thesis by (simp add: indices_a_def indices_b_def del: last.simps)
  qed
  with ra(2) rb(2) show ?thesis unfolding indices_a_def[symmetric] indices_b_def[symmetric] by blast
qed

theorem compress_count_monotone_witness:
  "compress_trajectory [0, 1, 2] [0, 1, 2] [0, 0, 0] (1 / 2) = Inr [0, 1, 2] \<and>
   compress_trajectory [0, 1, 2] [0, 1, 2] [0, 0, 0] (3 / 2) = Inr [0, 2] \<and>
   length [0, 2 :: int] \<le> length [0, 1, 2 :: int]"
  using compress_count_monotone [of "[0, 1, 2]" "[0, 1, 2]" "[0, 0, 0]" "1 / 2" "3 / 2"]
    sorted_approach [of "[0, 1, 2]" "[0, 0, 0]" 3]
  by (simp add: compress_eval)

section \<open>Claims on the sweeps\<close>



text \<open>
  C3. Start from a collection with pairwise different keys (the empty one at the start of a
  sweep), merge a run with key \<open>k\<close> and method \<open>m1\<close>, then any sequence of runs, then a run
  with the same key \<open>k\<close> and method \<open>m2\<close>. After the first and after the last merge the
  keys are still pairwise different and exactly one record has the key \<open>k\<close>; at the end it
  holds an entry for \<open>m1\<close> and the entry of \<open>m2\<close> (and still the arrays of the first run
  when \<open>m1 \<noteq> m2\<close> and no run in between has the same key and method); its \<open>t\<close> is the
  \<open>t\<close> it had after the first merge, which is the first run's \<open>t\<close> when the key was new.
  A merge into an existing record changes no \<open>t\<close> and no parameter field of any record.
  The merge of the unnamed notebook is the same function; both sweeps change the collection
  only by such merges and keep its keys pairwise different.

  The sweeps perform exactly these merges. At a grid point where the integration succeeds
  (and, in 95, the compression and the re-indexing raise nothing) the loop body merges the
  run under the point's own key \<open>(x0, y0, gamma1, gamma2, alpha)\<close> and method, with the
  compressed arrays \<open>t[indices]\<close>, \<open>x[indices]\<close>, \<open>y[indices]\<close> in 95 and with the arrays
  of the solution in the unnamed notebook. The records after a whole sweep are the records
  before it with the runs of its grid points merged in, in the order of the loops. Hence,
  from a collection with pairwise different keys, two methods of the method list that both
  succeed at a parameter set of the grid leave exactly one record for that parameter set,
  holding an entry for each of them; and when the parameter set was not in the collection
  before, the \<open>t\<close> of its record is the \<open>t\<close> of the first run of the sweep with that key.
\<close>

theorem merge_semantics:
  fixes rs :: "solution_record list" and k :: key and m1 m2 :: method_name
    and t1 t2 :: "real list" and xy1 xy2 :: "real list \<times> real list" and mids :: "run list"
    and solve :: solver and st st' :: sweep_state
  assumes "distinct (map key_of rs)"
  defines "rs1 \<equiv> merge_record rs k m1 t1 xy1"
  defines "rs2 \<equiv> merge_record (merge_runs rs1 mids) k m2 t2 xy2"
  shows "distinct (map key_of rs1) \<and> distinct (map key_of rs2) \<and>
         (\<exists>r1 r2. filter (\<lambda>r. key_of r = k) rs1 = [r1] \<and> filter (\<lambda>r. key_of r = k) rs2 = [r2] \<and>
            m1 \<in> dom (solutions r2) \<and> solutions r2 m2 = Some xy2 \<and>
            ((k, m1) \<notin> run_id ` set mids \<and> m1 \<noteq> m2 \<longrightarrow> solutions r2 m1 = Some xy1) \<and>
            rec_t r2 = rec_t r1 \<and> key_of r2 = key_of r1 \<and>
            (k \<notin> set (map key_of rs) \<longrightarrow> rec_t r1 = t1)) \<and>
         (k \<in> set (map key_of rs) \<longrightarrow>
            map rec_t rs1 = map rec_t rs \<and> map key_of rs1 = map key_of rs) \<and>
         merge_seen = merge_record \<and>
         (distinct (map key_of (records st)) \<longrightarrow>
            distinct (map key_of (records
              (sweep_merge solve initial_conditions gamma_1_list gamma_2_list alpha_list
                 all_methods delta st)))) \<and>
         (distinct (map key_of (records st')) \<longrightarrow>
            distinct (map key_of (records
              (sweep_seen solve initial_conditions gamma_1_list gamma_2_list all_methods
                 alpha_list st')))) \<and>
         (\<exists>runs. records (sweep_merge solve initial_conditions gamma_1_list gamma_2_list
             alpha_list all_methods delta st) = merge_runs (records st) runs) \<and>
         (\<exists>runs. records (sweep_seen solve initial_conditions gamma_1_list gamma_2_list
             all_methods alpha_list st') = merge_runs (records st') runs) \<and>
         (solve m alpha gamma1 gamma2 x0 y0 = Inr s \<and> success s \<and>
          compress_trajectory (sol_t s) (sol_y0 s) (sol_y1 s) delta = Inr indices \<and>
          take_indices (sol_y0 s) indices = Inr x_filt \<and>
          take_indices (sol_y1 s) indices = Inr y_filt \<and>
          take_indices (sol_t s) indices = Inr t_filt \<longrightarrow>
            records (body_merge solve delta x0 y0 gamma1 gamma2 alpha m st) =
              merge_record (records st) (x0, y0, gamma1, gamma2, alpha) m t_filt
                (x_filt, y_filt)) \<and>
         (solve m alpha gamma1 gamma2 x0 y0 = Inr s \<and> success s \<longrightarrow>
            records (body_seen solve x0 y0 gamma1 gamma2 m alpha st') =
              merge_seen (records st') (x0, y0, gamma1, gamma2, alpha) m (sol_t s)
                (sol_y0 s, sol_y1 s)) \<and>
         records (sweep_merge solve initial_conditions gamma_1_list gamma_2_list alpha_list
             all_methods delta st) =
           merge_runs (records st)
             (runs_merge solve initial_conditions gamma_1_list gamma_2_list alpha_list
                all_methods delta) \<and>
         records (sweep_seen solve initial_conditions gamma_1_list gamma_2_list all_methods
             alpha_list st') =
           merge_runs (records st')
             (runs_seen solve initial_conditions gamma_1_list gamma_2_list all_methods
                alpha_list) \<and>
         (distinct (map key_of (records st)) \<and> (x0, y0) \<in> set initial_conditions \<and>
          gamma1 \<in> set gamma_1_list \<and> gamma2 \<in> set gamma_2_list \<and> alpha \<in> set alpha_list \<and>
          ma \<in> set all_methods \<and> mb \<in> set all_methods \<and>
          run_merge solve delta (x0, y0, gamma1, gamma2, alpha, ma) \<noteq> [] \<and>
          run_merge solve delta (x0, y0, gamma1, gamma2, alpha, mb) \<noteq> [] \<longrightarrow>
            (\<exists>r. filter (\<lambda>r. key_of r = (x0, y0, gamma1, gamma2, alpha))
                   (records (sweep_merge solve initial_conditions gamma_1_list gamma_2_list
                      alpha_list all_methods delta st)) = [r] \<and>
                 ma \<in> dom (solutions r) \<and> mb \<in> dom (solutions r))) \<and>
         (distinct (map key_of (records st')) \<and> (x0, y0) \<in> set initial_conditions \<and>
          gamma1 \<in> set gamma_1_list \<and> gamma2 \<in> set gamma_2_list \<and> alpha \<in> set alpha_list \<and>
          ma \<in> set all_methods \<and> mb \<in> set all_methods \<and>
          run_seen solve (x0, y0, gamma1, gamma2, ma, alpha) \<noteq> [] \<and>
          run_seen solve (x0, y0, gamma1, gamma2, mb, alpha) \<noteq> [] \<longrightarrow>
            (\<exists>r. filter (\<lambda>r. key_of r = (x0, y0, gamma1, gamma2, alpha))
                   (records (sweep_seen solve initial_conditions gamma_1_list gamma_2_list
                      all_methods alpha_list st')) = [r] \<and>
                 ma \<in> dom (solutions r) \<and> mb \<in> dom (solutions r))) \<and>
         (distinct (map key_of (records st)) \<and> k \<notin> set (map key_of (records st)) \<and>
          runs_merge solve initial_conditions gamma_1_list gamma_2_list alpha_list all_methods
            delta = earlier @ (k, m1, t1, xy1) # later \<and>
          k \<notin> fst ` set earlier \<longrightarrow>
            (\<exists>r. filter (\<lambda>r. key_of r = k)
                   (records (sweep_merge solve initial_conditions gamma_1_list gamma_2_list
                      alpha_list all_methods delta st)) = [r] \<and> rec_t r = t1)) \<and>
         (distinct (map key_of (records st')) \<and> k \<notin> set (map key_of (records st')) \<and>
          runs_seen solve initial_conditions gamma_1_list gamma_2_list all_methods alpha_list =
            earlier' @ (k, m1, t1, xy1) # later' \<and>
          k \<notin> fst ` set earlier' \<longrightarrow>
            (\<exists>r. filter (\<lambda>r. key_of r = k)
                   (records (sweep_seen solve initial_conditions gamma_1_list gamma_2_list
                      all_methods alpha_list st')) = [r] \<and> rec_t r = t1))"
proof -
  let ?is = "\<lambda>r. key_of r = k"
  define rm where "rm = merge_runs rs1 mids"
  have d1: "distinct (map key_of rs1)"
    unfolding rs1_def using assms(1) by (rule distinct_merge_record)
  then have dm: "distinct (map key_of rm)" unfolding rm_def by (rule distinct_merge_runs)
  then have d2: "distinct (map key_of rs2)"
    unfolding rs2_def rm_def[symmetric] by (rule distinct_merge_record)
  define r1 where "r1 = (case find ?is rs of None \<Rightarrow> fresh_record k t1 m1 xy1
                         | Some r \<Rightarrow> add_entry m1 xy1 r)"
  have f1: "find ?is rs1 = Some r1"
    unfolding rs1_def r1_def by (rule find_merge_record_same)
  have s1: "solutions r1 m1 = Some xy1"
    by (simp add: r1_def split: option.splits)
  have k1: "key_of r1 = k"
    using f1 by (auto simp: find_Some_iff)
  from find_merge_runs_keeps[OF f1, of mids m1]
  obtain r' where r': "find ?is rm = Some r'" "rec_t r' = rec_t r1"
    "dom (solutions r1) \<subseteq> dom (solutions r')"
    "(k, m1) \<notin> run_id ` set mids \<longrightarrow> solutions r' m1 = solutions r1 m1"
    unfolding rm_def by blast
  define r2 where "r2 = add_entry m2 xy2 r'"
  have f2: "find ?is rs2 = Some r2"
    unfolding rs2_def rm_def[symmetric] r2_def by (simp add: find_merge_record_same r'(1))
  have k2: "key_of r2 = k"
    using f2 by (auto simp: find_Some_iff)
  have "m1 \<in> dom (solutions r1)" using s1 by blast
  with r'(3) have in1: "m1 \<in> dom (solutions r2)" by (auto simp: r2_def)
  have in2: "solutions r2 m2 = Some xy2" by (simp add: r2_def)
  have keep: "(k, m1) \<notin> run_id ` set mids \<and> m1 \<noteq> m2 \<longrightarrow> solutions r2 m1 = Some xy1"
    using r'(4) s1 by (simp add: r2_def)
  have t2: "rec_t r2 = rec_t r1" using r'(2) by (simp add: r2_def)
  have first: "k \<notin> set (map key_of rs) \<longrightarrow> rec_t r1 = t1"
  proof
    assume "k \<notin> set (map key_of rs)"
    then have "find ?is rs = None" by (auto simp: find_None_iff)
    then show "rec_t r1 = t1" by (simp add: r1_def)
  qed
  have flt1: "filter ?is rs1 = [r1]" using filter_distinct_key[OF d1, of k] f1 by simp
  have flt2: "filter ?is rs2 = [r2]" using filter_distinct_key[OF d2, of k] f2 by simp
  have ex: "\<exists>r1 r2. filter ?is rs1 = [r1] \<and> filter ?is rs2 = [r2] \<and>
            m1 \<in> dom (solutions r2) \<and> solutions r2 m2 = Some xy2 \<and>
            ((k, m1) \<notin> run_id ` set mids \<and> m1 \<noteq> m2 \<longrightarrow> solutions r2 m1 = Some xy1) \<and>
            rec_t r2 = rec_t r1 \<and> key_of r2 = key_of r1 \<and>
            (k \<notin> set (map key_of rs) \<longrightarrow> rec_t r1 = t1)"
    using flt1 flt2 in1 in2 keep t2 k1 k2 first by blast
  have unchanged: "k \<in> set (map key_of rs) \<longrightarrow>
            map rec_t rs1 = map rec_t rs \<and> map key_of rs1 = map key_of rs"
    unfolding rs1_def by (simp add: times_merge_record keys_merge_record)
  have same: "merge_seen = merge_record"
    by (intro ext) (rule merge_seen_eq_merge_record)
  have sw1: "distinct (map key_of (records st)) \<longrightarrow>
            distinct (map key_of (records
              (sweep_merge solve initial_conditions gamma_1_list gamma_2_list alpha_list
                 all_methods delta st)))"
    by (intro impI distinct_sweep_merge)
  have sw2: "distinct (map key_of (records st')) \<longrightarrow>
            distinct (map key_of (records
              (sweep_seen solve initial_conditions gamma_1_list gamma_2_list all_methods
                 alpha_list st')))"
    by (intro impI distinct_sweep_seen)
  have ru1: "\<exists>runs. records (sweep_merge solve initial_conditions gamma_1_list gamma_2_list
             alpha_list all_methods delta st) = merge_runs (records st) runs"
    by (rule sweep_merge_runs)
  have ru2: "\<exists>runs. records (sweep_seen solve initial_conditions gamma_1_list gamma_2_list
             all_methods alpha_list st') = merge_runs (records st') runs"
    by (rule sweep_seen_runs)
  have bm: "solve m alpha gamma1 gamma2 x0 y0 = Inr s \<and> success s \<and>
          compress_trajectory (sol_t s) (sol_y0 s) (sol_y1 s) delta = Inr indices \<and>
          take_indices (sol_y0 s) indices = Inr x_filt \<and>
          take_indices (sol_y1 s) indices = Inr y_filt \<and>
          take_indices (sol_t s) indices = Inr t_filt \<longrightarrow>
            records (body_merge solve delta x0 y0 gamma1 gamma2 alpha m st) =
              merge_record (records st) (x0, y0, gamma1, gamma2, alpha) m t_filt
                (x_filt, y_filt)"
  proof (intro impI, elim conjE)
    assume "solve m alpha gamma1 gamma2 x0 y0 = Inr s" "success s"
      "compress_trajectory (sol_t s) (sol_y0 s) (sol_y1 s) delta = Inr indices"
      "take_indices (sol_y0 s) indices = Inr x_filt"
      "take_indices (sol_y1 s) indices = Inr y_filt"
      "take_indices (sol_t s) indices = Inr t_filt"
    then show "records (body_merge solve delta x0 y0 gamma1 gamma2 alpha m st) =
        merge_record (records st) (x0, y0, gamma1, gamma2, alpha) m t_filt (x_filt, y_filt)"
      by (rule body_merge_success)
  qed
  have bs: "solve m alpha gamma1 gamma2 x0 y0 = Inr s \<and> success s \<longrightarrow>
            records (body_seen solve x0 y0 gamma1 gamma2 m alpha st') =
              merge_seen (records st') (x0, y0, gamma1, gamma2, alpha) m (sol_t s)
                (sol_y0 s, sol_y1 s)"
  proof (intro impI, elim conjE)
    assume "solve m alpha gamma1 gamma2 x0 y0 = Inr s" "success s"
    then show "records (body_seen solve x0 y0 gamma1 gamma2 m alpha st') =
        merge_seen (records st') (x0, y0, gamma1, gamma2, alpha) m (sol_t s)
          (sol_y0 s, sol_y1 s)"
      by (rule body_seen_success)
  qed
  have ex1: "records (sweep_merge solve initial_conditions gamma_1_list gamma_2_list alpha_list
             all_methods delta st) =
           merge_runs (records st)
             (runs_merge solve initial_conditions gamma_1_list gamma_2_list alpha_list
                all_methods delta)"
    unfolding runs_merge_def by (rule sweep_merge_records)
  have ex2: "records (sweep_seen solve initial_conditions gamma_1_list gamma_2_list all_methods
             alpha_list st') =
           merge_runs (records st')
             (runs_seen solve initial_conditions gamma_1_list gamma_2_list all_methods
                alpha_list)"
    unfolding runs_seen_def by (rule sweep_seen_records)
  have two1: "distinct (map key_of (records st)) \<and> (x0, y0) \<in> set initial_conditions \<and>
          gamma1 \<in> set gamma_1_list \<and> gamma2 \<in> set gamma_2_list \<and> alpha \<in> set alpha_list \<and>
          ma \<in> set all_methods \<and> mb \<in> set all_methods \<and>
          run_merge solve delta (x0, y0, gamma1, gamma2, alpha, ma) \<noteq> [] \<and>
          run_merge solve delta (x0, y0, gamma1, gamma2, alpha, mb) \<noteq> [] \<longrightarrow>
            (\<exists>r. filter (\<lambda>r. key_of r = (x0, y0, gamma1, gamma2, alpha))
                   (records (sweep_merge solve initial_conditions gamma_1_list gamma_2_list
                      alpha_list all_methods delta st)) = [r] \<and>
                 ma \<in> dom (solutions r) \<and> mb \<in> dom (solutions r))"
  proof (intro impI, elim conjE)
    assume "distinct (map key_of (records st))" "(x0, y0) \<in> set initial_conditions"
      "gamma1 \<in> set gamma_1_list" "gamma2 \<in> set gamma_2_list" "alpha \<in> set alpha_list"
      "ma \<in> set all_methods" "mb \<in> set all_methods"
      "run_merge solve delta (x0, y0, gamma1, gamma2, alpha, ma) \<noteq> []"
      "run_merge solve delta (x0, y0, gamma1, gamma2, alpha, mb) \<noteq> []"
    then show "\<exists>r. filter (\<lambda>r. key_of r = (x0, y0, gamma1, gamma2, alpha))
                   (records (sweep_merge solve initial_conditions gamma_1_list gamma_2_list
                      alpha_list all_methods delta st)) = [r] \<and>
                 ma \<in> dom (solutions r) \<and> mb \<in> dom (solutions r)"
      by (rule sweep_merge_two_methods)
  qed
  have two2: "distinct (map key_of (records st')) \<and> (x0, y0) \<in> set initial_conditions \<and>
          gamma1 \<in> set gamma_1_list \<and> gamma2 \<in> set gamma_2_list \<and> alpha \<in> set alpha_list \<and>
          ma \<in> set all_methods \<and> mb \<in> set all_methods \<and>
          run_seen solve (x0, y0, gamma1, gamma2, ma, alpha) \<noteq> [] \<and>
          run_seen solve (x0, y0, gamma1, gamma2, mb, alpha) \<noteq> [] \<longrightarrow>
            (\<exists>r. filter (\<lambda>r. key_of r = (x0, y0, gamma1, gamma2, alpha))
                   (records (sweep_seen solve initial_conditions gamma_1_list gamma_2_list
                      all_methods alpha_list st')) = [r] \<and>
                 ma \<in> dom (solutions r) \<and> mb \<in> dom (solutions r))"
  proof (intro impI, elim conjE)
    assume "distinct (map key_of (records st'))" "(x0, y0) \<in> set initial_conditions"
      "gamma1 \<in> set gamma_1_list" "gamma2 \<in> set gamma_2_list" "alpha \<in> set alpha_list"
      "ma \<in> set all_methods" "mb \<in> set all_methods"
      "run_seen solve (x0, y0, gamma1, gamma2, ma, alpha) \<noteq> []"
      "run_seen solve (x0, y0, gamma1, gamma2, mb, alpha) \<noteq> []"
    then show "\<exists>r. filter (\<lambda>r. key_of r = (x0, y0, gamma1, gamma2, alpha))
                   (records (sweep_seen solve initial_conditions gamma_1_list gamma_2_list
                      all_methods alpha_list st')) = [r] \<and>
                 ma \<in> dom (solutions r) \<and> mb \<in> dom (solutions r)"
      by (rule sweep_seen_two_methods)
  qed
  have ft1: "distinct (map key_of (records st)) \<and> k \<notin> set (map key_of (records st)) \<and>
          runs_merge solve initial_conditions gamma_1_list gamma_2_list alpha_list all_methods
            delta = earlier @ (k, m1, t1, xy1) # later \<and>
          k \<notin> fst ` set earlier \<longrightarrow>
            (\<exists>r. filter (\<lambda>r. key_of r = k)
                   (records (sweep_merge solve initial_conditions gamma_1_list gamma_2_list
                      alpha_list all_methods delta st)) = [r] \<and> rec_t r = t1)"
  proof (intro impI, elim conjE)
    assume "distinct (map key_of (records st))" "k \<notin> set (map key_of (records st))"
      "runs_merge solve initial_conditions gamma_1_list gamma_2_list alpha_list all_methods
            delta = earlier @ (k, m1, t1, xy1) # later"
      "k \<notin> fst ` set earlier"
    then show "\<exists>r. filter (\<lambda>r. key_of r = k)
                   (records (sweep_merge solve initial_conditions gamma_1_list gamma_2_list
                      alpha_list all_methods delta st)) = [r] \<and> rec_t r = t1"
      by (rule sweep_merge_first_time)
  qed
  have ft2: "distinct (map key_of (records st')) \<and> k \<notin> set (map key_of (records st')) \<and>
          runs_seen solve initial_conditions gamma_1_list gamma_2_list all_methods alpha_list =
            earlier' @ (k, m1, t1, xy1) # later' \<and>
          k \<notin> fst ` set earlier' \<longrightarrow>
            (\<exists>r. filter (\<lambda>r. key_of r = k)
                   (records (sweep_seen solve initial_conditions gamma_1_list gamma_2_list
                      all_methods alpha_list st')) = [r] \<and> rec_t r = t1)"
  proof (intro impI, elim conjE)
    assume "distinct (map key_of (records st'))" "k \<notin> set (map key_of (records st'))"
      "runs_seen solve initial_conditions gamma_1_list gamma_2_list all_methods alpha_list =
            earlier' @ (k, m1, t1, xy1) # later'"
      "k \<notin> fst ` set earlier'"
    then show "\<exists>r. filter (\<lambda>r. key_of r = k)
                   (records (sweep_seen solve initial_conditions gamma_1_list gamma_2_list
                      all_methods alpha_list st')) = [r] \<and> rec_t r = t1"
      by (rule sweep_seen_first_time)
  qed
  from d1 d2 ex unchanged same sw1 sw2 ru1 ru2 bm bs ex1 ex2 two1 two2 ft1 ft2
  show ?thesis by (intro conjI)
qed

theorem merge_semantics_witness:
  "records (sweep_merge by_method [(1, 1)] [0] [0] [3] [''DOP853'', ''BDF''] (1 / 20) start) =
     [\<lparr>rec_x0 = 1, rec_y0 = 1, rec_gamma1 = 0, rec_gamma2 = 0, rec_alpha = 3, rec_t = [0, 1],
       solutions = [''DOP853'' \<mapsto> ([1, 2], [1, 1]), ''BDF'' \<mapsto> ([1, 2], [1, 1])]\<rparr>] \<and>
   records (sweep_seen by_method [(1, 1)] [0] [0] [''DOP853'', ''BDF''] [3] start) =
     [\<lparr>rec_x0 = 1, rec_y0 = 1, rec_gamma1 = 0, rec_gamma2 = 0, rec_alpha = 3, rec_t = [0, 1],
       solutions = [''DOP853'' \<mapsto> ([1, 2], [1, 1]), ''BDF'' \<mapsto> ([1, 1, 2], [1, 1, 1])]\<rparr>] \<and>
   by_method ''BDF'' 3 0 0 1 1 =
     Inr \<lparr>success = True, sol_t = [0, 1, 2], sol_y0 = [1, 1, 2], sol_y1 = [1, 1, 1]\<rparr> \<and>
   compress_trajectory [0, 1, 2] [1, 1, 2] [1, 1, 1] (1 / 20) = Inr [0, 2] \<and>
   take_indices [0, 1, 2] [0, 2] = Inr [0, 2] \<and>
   take_indices [1, 1, 2] [0, 2] = Inr [1, 2] \<and>
   take_indices [1, 1, 1] [0, 2] = Inr [1, 1] \<and>
   records (body_merge by_method (1 / 20) 1 1 0 0 3 ''BDF'' start) =
     [\<lparr>rec_x0 = 1, rec_y0 = 1, rec_gamma1 = 0, rec_gamma2 = 0, rec_alpha = 3, rec_t = [0, 2],
       solutions = [''BDF'' \<mapsto> ([1, 2], [1, 1])]\<rparr>] \<and>
   records (body_seen by_method 1 1 0 0 ''BDF'' 3 start) =
     [\<lparr>rec_x0 = 1, rec_y0 = 1, rec_gamma1 = 0, rec_gamma2 = 0, rec_alpha = 3,
       rec_t = [0, 1, 2], solutions = [''BDF'' \<mapsto> ([1, 1, 2], [1, 1, 1])]\<rparr>] \<and>
   runs_merge by_method [(1, 1)] [0] [0] [3] [''DOP853'', ''BDF''] (1 / 20) =
     [((1, 1, 0, 0, 3), ''DOP853'', [0, 1], ([1, 2], [1, 1])),
      ((1, 1, 0, 0, 3), ''BDF'', [0, 2], ([1, 2], [1, 1]))] \<and>
   runs_seen by_method [(1, 1)] [0] [0] [''DOP853'', ''BDF''] [3] =
     [((1, 1, 0, 0, 3), ''DOP853'', [0, 1], ([1, 2], [1, 1])),
      ((1, 1, 0, 0, 3), ''BDF'', [0, 1, 2], ([1, 1, 2], [1, 1, 1]))] \<and>
   merge_record
     (merge_record [] (1, 1, 0, 0, 3) ''DOP853'' [0, 1] ([1, 2], [1, 1]))
     (1, 1, 0, 0, 3) ''BDF'' [0, 2] ([1, 2], [1, 1]) =
   [\<lparr>rec_x0 = 1, rec_y0 = 1, rec_gamma1 = 0, rec_gamma2 = 0, rec_alpha = 3, rec_t = [0, 1],
     solutions = [''DOP853'' \<mapsto> ([1, 2], [1, 1]), ''BDF'' \<mapsto> ([1, 2], [1, 1])]\<rparr>] \<and>
   records start = []"
  using merge_semantics [where rs = "[]" and k = "(1, 1, 0, 0, 3)" and ?m1.0 = "''DOP853''"
      and ?t1.0 = "[0, 1]" and ?xy1.0 = "([1, 2], [1, 1])" and mids = "[]" and ?m2.0 = "''BDF''"
      and ?t2.0 = "[0, 2]" and ?xy2.0 = "([1, 2], [1, 1])" and st = start and st' = start
      and solve = by_method and initial_conditions = "[(1, 1)]"
      and ?gamma_1_list.0 = "[0]" and ?gamma_2_list.0 = "[0]" and alpha_list = "[3]"
      and all_methods = "[''DOP853'', ''BDF'']" and delta = "1 / 20"
      and m = "''BDF''" and alpha = 3 and ?gamma1.0 = 0 and ?gamma2.0 = 0 and ?x0.0 = 1
      and ?y0.0 = 1
      and s = "\<lparr>success = True, sol_t = [0, 1, 2], sol_y0 = [1, 1, 2], sol_y1 = [1, 1, 1]\<rparr>"
      and indices = "[0, 2]" and x_filt = "[1, 2]" and y_filt = "[1, 1]" and t_filt = "[0, 2]"
      and ma = "''DOP853''" and mb = "''BDF''"
      and earlier = "[]" and later = "[((1, 1, 0, 0, 3), ''BDF'', [0, 2], ([1, 2], [1, 1]))]"
      and earlier' = "[]"
      and later' = "[((1, 1, 0, 0, 3), ''BDF'', [0, 1, 2], ([1, 1, 2], [1, 1, 1]))]"]
  by (simp add: sweep_merge_def sweep_seen_def body_merge_def body_seen_def by_method_def
      compress_solution_def compress_eval count_solution_def merge_seen_def start_def
      new_record_def key_of_def runs_merge_def runs_seen_def grid_merge_def grid_unique_def
      run_merge_def run_seen_def)

text \<open>
  C8, as stated, fails in one point: a result with \<^verbatim>\<open>success = False\<close> is a failed
  integration, and neither sweep prints anything for it. Only a raised exception reaches
  the \<^verbatim>\<open>except\<close> clause and its \<^verbatim>\<open>print\<close>.
\<close>

theorem unsuccessful_result_not_logged:
  "failed (Inr \<lparr>success = False, sol_t = [0], sol_y0 = [1], sol_y1 = [1]\<rparr>) \<and>
   printed (sweep_98 (\<lambda>m a g1 g2 u v. Inr \<lparr>success = False, sol_t = [0], sol_y0 = [1], sol_y1 = [1]\<rparr>)
      [(1, 1)] [0] [0] [1 / 1000] ''DOP853'' (1 / 20) start) = [] \<and>
   printed (sweep_unique (\<lambda>m a g1 g2 u v. Inr \<lparr>success = False, sol_t = [0], sol_y0 = [1], sol_y1 = [1]\<rparr>)
      [(1, 1)] [0] [0] [''DOP853''] [1 / 1000] (1 / 100000) start_unique) = []"
  by (simp add: failed_def sweep_98_def body_98_def sweep_unique_def body_unique_def start_def
      start_unique_def)

text \<open>
  C8, amended. At a grid point where the integrator raises, the body prints one error line
  and changes nothing else (the uniqueness sweep also counts the attempt). Where it
  returns \<^verbatim>\<open>success = False\<close>, the body prints nothing and changes nothing (but that
  counter). The sweep goes on with the next grid point, and what it stores in the end is
  what it stores on the grid without the failed points.
\<close>

theorem failed_integration_skipped:
  "(solve m alpha gamma1 gamma2 x0 y0 = Inl e \<longrightarrow>
      body_98 solve m delta x0 y0 gamma1 gamma2 alpha st =
        st\<lparr>printed := printed st @ [Error_line m alpha gamma1 gamma2 x0 e]\<rparr> \<and>
      body_unique solve epsilon x0 y0 gamma1 gamma2 m alpha ust =
        ust\<lparr>total_attempts := total_attempts ust + 1,
            printed := printed ust @ [Error_line m alpha gamma1 gamma2 x0 e]\<rparr>) \<and>
   (solve m alpha gamma1 gamma2 x0 y0 = Inr s \<and> \<not> success s \<longrightarrow>
      body_98 solve m delta x0 y0 gamma1 gamma2 alpha st = st \<and>
      body_unique solve epsilon x0 y0 gamma1 gamma2 m alpha ust =
        ust\<lparr>total_attempts := total_attempts ust + 1\<rparr>) \<and>
   stored_98 (sweep_98 solve initial_conditions gamma_1_list gamma_2_list alpha_list m delta st) =
     stored_98 (fold (step_98 solve m delta)
       (filter (\<lambda>p. \<not> fails_98 solve m p)
          (grid_98 initial_conditions gamma_1_list gamma_2_list alpha_list)) st) \<and>
   stored_unique (sweep_unique solve initial_conditions gamma_1_list gamma_2_list all_methods
       alpha_list epsilon ust) =
     stored_unique (fold (step_unique solve epsilon)
       (filter (\<lambda>p. \<not> fails_unique solve p)
          (grid_unique initial_conditions gamma_1_list gamma_2_list all_methods alpha_list)) ust)"
proof (intro conjI impI)
  assume "solve m alpha gamma1 gamma2 x0 y0 = Inl e"
  then show "body_98 solve m delta x0 y0 gamma1 gamma2 alpha st =
        st\<lparr>printed := printed st @ [Error_line m alpha gamma1 gamma2 x0 e]\<rparr>"
    by (rule body_98_raises)
next
  assume "solve m alpha gamma1 gamma2 x0 y0 = Inl e"
  then show "body_unique solve epsilon x0 y0 gamma1 gamma2 m alpha ust =
        ust\<lparr>total_attempts := total_attempts ust + 1,
            printed := printed ust @ [Error_line m alpha gamma1 gamma2 x0 e]\<rparr>"
    by (rule body_unique_raises)
next
  assume "solve m alpha gamma1 gamma2 x0 y0 = Inr s \<and> \<not> success s"
  then show "body_98 solve m delta x0 y0 gamma1 gamma2 alpha st = st"
    by (simp add: body_98_unsuccessful)
next
  assume "solve m alpha gamma1 gamma2 x0 y0 = Inr s \<and> \<not> success s"
  then show "body_unique solve epsilon x0 y0 gamma1 gamma2 m alpha ust =
        ust\<lparr>total_attempts := total_attempts ust + 1\<rparr>"
    by (simp add: body_unique_unsuccessful)
next
  show "stored_98 (sweep_98 solve initial_conditions gamma_1_list gamma_2_list alpha_list m delta st) =
     stored_98 (fold (step_98 solve m delta)
       (filter (\<lambda>p. \<not> fails_98 solve m p)
          (grid_98 initial_conditions gamma_1_list gamma_2_list alpha_list)) st)"
    by (rule sweep_98_skips)
next
  show "stored_unique (sweep_unique solve initial_conditions gamma_1_list gamma_2_list all_methods
       alpha_list epsilon ust) =
     stored_unique (fold (step_unique solve epsilon)
       (filter (\<lambda>p. \<not> fails_unique solve p)
          (grid_unique initial_conditions gamma_1_list gamma_2_list all_methods alpha_list)) ust)"
    by (rule sweep_unique_skips)
qed

theorem failed_integration_skipped_witness:
  "body_98 flaky ''DOP853'' (1 / 20) 1 1 0 0 1 start =
     start\<lparr>printed := [Error_line ''DOP853'' 1 0 0 1 ValueError]\<rparr> \<and>
   body_98 flaky ''DOP853'' (1 / 20) 1 1 0 0 2 start = start \<and>
   body_unique flaky (1 / 100000) 1 1 0 0 ''DOP853'' 2 start_unique =
     start_unique\<lparr>total_attempts := 1\<rparr> \<and>
   stored_98 (sweep_98 flaky [(1, 1)] [0] [0] [1, 2, 3] ''DOP853'' (1 / 20) start) =
     stored_98 (fold (step_98 flaky ''DOP853'' (1 / 20)) [(1, 1, 0, 0, 3)] start)"
  using failed_integration_skipped [of flaky "''DOP853''" 1 0 0 1 1 ValueError "1 / 20" start
      "1 / 100000" start_unique "\<lparr>success = False, sol_t = [0], sol_y0 = [1], sol_y1 = [1]\<rparr>" "[(1, 1)]" "[0]" "[0]" "[1, 2, 3]" "[]"]
    failed_integration_skipped [of flaky "''DOP853''" 2 0 0 1 1 ValueError "1 / 20" start
      "1 / 100000" start_unique "\<lparr>success = False, sol_t = [0], sol_y0 = [1], sol_y1 = [1]\<rparr>"
      "[]" "[]" "[]" "[]" "[]"]
  by (simp add: flaky_def start_def start_unique_def grid_98_def fails_98_def failed_def)

section \<open>Claims on the right-hand side\<close>

text \<open>
  C4, as stated, fails for large \<open>gamma1\<close>: the state \<open>x = 1e20\<close>, \<open>y = 1\<close>, with
  \<open>alpha = 1\<close>, \<open>gamma1 = 1e300\<close> and \<open>gamma2 = 0\<close>, is within the stated ranges and all
  inputs are finite floats, but the product \<open>gamma1 * x = 1e320\<close> is beyond the largest
  finite float64, and so is \<open>dxdt\<close>: in float64 the product is \<open>inf\<close> and the derivative
  \<open>-inf\<close>.
\<close>

theorem rhs_overflows_for_huge_gamma:
  "get_rhs 1 (10 ^ 300) 0 0 (10 ^ 20, 1) =
     Inr (10 ^ 20 / (1 + 10 ^ 20) - 10 ^ 300 * 10 ^ 20, 1 / 2) \<and>
   \<not> representable (10 ^ 20 / (1 + 10 ^ 20) - 10 ^ 300 * 10 ^ 20) \<and>
   \<not> representable (10 ^ 300 * 10 ^ 20) \<and>
   representable (10 ^ 300) \<and> representable (10 ^ 20) \<and> representable 1 \<and> representable 0"
proof -
  have val: "get_rhs 1 (10 ^ 300) 0 0 (10 ^ 20, 1) =
     Inr (10 ^ 20 / (1 + 10 ^ 20) - 10 ^ 300 * 10 ^ 20, 1 / 2)"
  proof -
    have "get_rhs 1 (10 ^ 300) 0 0 (10 ^ 20, 1) =
      Inr (model_K * clamped_power (10 ^ 20) (1 / 1) /
             (clamped_power model_b (1 / 1) + clamped_power (10 ^ 20) (1 / 1)) -
             10 ^ 300 * 10 ^ 20,
           model_K * clamped_power 1 (1 / 1) /
             (clamped_power model_b (1 / 1) + clamped_power 1 (1 / 1)) - 0 * 1)"
      by (rule get_rhs_value) simp_all
    then show ?thesis
      unfolding model_K_def model_b_def div_by_1 clamped_power_one clamped_power_big by simp
  qed
  have big: "double_max + 1 < (10 ^ 300 * 10 ^ 20 :: real)"
    by (simp add: double_max_def)
  have q: "(10 ^ 20 / (1 + 10 ^ 20) :: real) < 1" by simp
  have dm: "1 \<le> double_max" by (rule one_le_double_max)
  have 1: "\<not> representable (10 ^ 20 / (1 + 10 ^ 20) - 10 ^ 300 * 10 ^ 20)"
    unfolding representable_def using q big by linarith
  have 2: "\<not> representable (10 ^ 300 * 10 ^ 20)"
    unfolding representable_def using big dm by linarith
  have 3: "representable (10 ^ 300)" "representable (10 ^ 20)" "representable 1" "representable 0"
    by (simp_all add: representable_def double_max_def)
  from val 1 2 3 show ?thesis by (intro conjI)
qed

text \<open>
  C4, amended. For every state \<open>x, y\<close> in \<open>[1e-20, 1e20]\<close>, every \<open>alpha\<close> in
  \<open>[1e-14, 1]\<close>, every \<open>t\<close> and every \<open>gamma1\<close>, \<open>gamma2\<close> of magnitude at most \<open>1e288\<close>, the
  evaluator raises nothing and returns the pair \<open>(dxdt, dydt)\<close> of the source's formulas;
  the three clamped exponentials lie in \<open>[exp(-700), exp(700)]\<close>, a range of positive
  numbers within the finite float64 values; the denominators \<open>b_alpha + x_alpha\<close> and
  \<open>b_alpha + y_alpha\<close> are strictly positive; the logarithms are taken of positive numbers;
  and every intermediate result and both derivatives are within the range of the finite
  float64 values, so no operation overflows and none has an undefined result.
\<close>

theorem rhs_finite:
  assumes "1 / 10 ^ 20 \<le> x" "x \<le> 10 ^ 20" "1 / 10 ^ 20 \<le> y" "y \<le> 10 ^ 20"
    and "1 / 10 ^ 14 \<le> alpha" "alpha \<le> 1"
    and "\<bar>gamma1\<bar> \<le> 10 ^ 288" "\<bar>gamma2\<bar> \<le> 10 ^ 288"
  shows "\<exists>x_alpha y_alpha b_alpha dxdt dydt.
           x_alpha = clamped_power x (1 / alpha) \<and> y_alpha = clamped_power y (1 / alpha) \<and>
           b_alpha = clamped_power model_b (1 / alpha) \<and>
           dxdt = model_K * x_alpha / (b_alpha + x_alpha) - gamma1 * x \<and>
           dydt = model_K * y_alpha / (b_alpha + y_alpha) - gamma2 * y \<and>
           get_rhs alpha gamma1 gamma2 t (x, y) = Inr (dxdt, dydt) \<and>
           representable dxdt \<and> representable dydt \<and>
           exp (- 700) \<le> x_alpha \<and> x_alpha \<le> exp 700 \<and>
           exp (- 700) \<le> y_alpha \<and> y_alpha \<le> exp 700 \<and>
           exp (- 700) \<le> b_alpha \<and> b_alpha \<le> exp 700 \<and>
           0 < exp (- 700 :: real) \<and> exp 700 \<le> double_max \<and>
           0 < b_alpha + x_alpha \<and> 0 < b_alpha + y_alpha \<and>
           representable (1 / alpha) \<and>
           representable (ln x) \<and> representable (ln x * (1 / alpha)) \<and>
           representable (ln y) \<and> representable (ln y * (1 / alpha)) \<and>
           representable (ln model_b) \<and> representable (ln model_b * (1 / alpha)) \<and>
           representable (model_K * x_alpha) \<and> representable (b_alpha + x_alpha) \<and>
           representable (model_K * x_alpha / (b_alpha + x_alpha)) \<and> representable (gamma1 * x) \<and>
           representable (model_K * y_alpha) \<and> representable (b_alpha + y_alpha) \<and>
           representable (model_K * y_alpha / (b_alpha + y_alpha)) \<and> representable (gamma2 * y) \<and>
           0 < x \<and> 0 < y \<and> 0 < model_b"
proof -
  define x_alpha where "x_alpha = clamped_power x (1 / alpha)"
  define y_alpha where "y_alpha = clamped_power y (1 / alpha)"
  define b_alpha where "b_alpha = clamped_power model_b (1 / alpha)"
  define dxdt where "dxdt = model_K * x_alpha / (b_alpha + x_alpha) - gamma1 * x"
  define dydt where "dydt = model_K * y_alpha / (b_alpha + y_alpha) - gamma2 * y"
  have a0: "alpha \<noteq> 0" using assms(5) by (auto simp: field_simps)
  have g0: "\<bar>0 :: real\<bar> \<le> 10 ^ 288" by simp
  have b: "1 / 10 ^ 20 \<le> model_b" "model_b \<le> 10 ^ 20" by (simp_all add: model_b_def)
  note cx = coordinate_bounds[OF assms(1,2) assms(5,6) assms(7), folded x_alpha_def b_alpha_def, folded dxdt_def]
  note cy = coordinate_bounds[OF assms(3,4) assms(5,6) assms(8), folded y_alpha_def b_alpha_def, folded dydt_def]
  note cb = coordinate_bounds[OF b assms(5,6) g0]
  have rx: "exp (- 700) \<le> x_alpha" "x_alpha \<le> exp 700"
    using clamped_power_range[of x "1 / alpha"] by (simp_all add: x_alpha_def)
  have ry: "exp (- 700) \<le> y_alpha" "y_alpha \<le> exp 700"
    using clamped_power_range[of y "1 / alpha"] by (simp_all add: y_alpha_def)
  have rb: "exp (- 700) \<le> b_alpha" "b_alpha \<le> exp 700"
    using clamped_power_range[of model_b "1 / alpha"] by (simp_all add: b_alpha_def)
  have qx: "representable (model_K * x_alpha / (b_alpha + x_alpha))"
    using cx(8,9) one_le_double_max by (intro representableI[where B = 1]) linarith+
  have qy: "representable (model_K * y_alpha / (b_alpha + y_alpha))"
    using cy(8,9) one_le_double_max by (intro representableI[where B = 1]) linarith+
  have val: "get_rhs alpha gamma1 gamma2 t (x, y) = Inr (dxdt, dydt)"
    unfolding dxdt_def dydt_def x_alpha_def y_alpha_def b_alpha_def
    using assms(1-4) a0 by (rule get_rhs_value)
  have e0: "0 < exp (- 700 :: real)" by (rule exp_gt_zero)
  have xpos: "0 < x" using assms(1) by (rule less_le_trans[rotated]) simp
  have ypos: "0 < y" using assms(3) by (rule less_le_trans[rotated]) simp
  have bpos: "0 < model_b" by (simp add: model_b_def)
  note facts = x_alpha_def y_alpha_def b_alpha_def dxdt_def dydt_def val cx cy cb(2,3) rx ry rb
    e0 exp_700_double qx qy xpos ypos bpos
  show ?thesis
    by (intro exI[of _ x_alpha] exI[of _ y_alpha] exI[of _ b_alpha] exI[of _ dxdt]
        exI[of _ dydt] conjI) (rule facts)+
qed

theorem rhs_finite_witness:
  "get_rhs (1 / 1000) 0 (7 / 10) 0 (1, 1) = Inr (1 / 2, - (1 / 5)) \<and>
   representable (1 / 2) \<and> representable (- (1 / 5)) \<and>
   clamped_power 1 (1 / (1 / 1000)) = 1"
  using rhs_finite [of 1 1 "1 / 1000" 0 "7 / 10" 0]
  by (simp add: get_rhs_def clamped_power_def clip_def model_b_def model_K_def
      representable_def double_max_def)

end
